theory Spec2Isabelle
  imports Main "HOL-Library.Word" "HOL-Library.AList"
begin

unbundle bit_operations_syntax

section \<open>Values of the Go runtime and of package os\<close>

text \<open>
  A run-time panic of the Go program is a value of the model. The only panic the two
  source files can raise is a method call through a nil \<open>os.FileInfo\<close> interface value.
\<close>

datatype panic = NilDereference

text \<open>
  \<open>os.FileInfo\<close> is an interface; the values package os hands out are \<open>*fileStat\<close>.
  The record keeps what the watcher reads of it: \<open>ModTime()\<close> (an instant, compared
  with \<open>Time.Equal\<close>), \<open>Size()\<close>, \<open>IsDir()\<close>, and the device and inode numbers that
  \<open>os.SameFile\<close> compares. An interface value may be nil: \<open>FileInfo\<close> is an option.
\<close>

record fileStat =
  ModTime :: int
  Size :: int
  IsDir :: bool
  Dev :: nat
  Ino :: nat

type_synonym FileInfo = "fileStat option"

text \<open>
  \<open>os.SameFile(fi1, fi2)\<close> asserts both arguments to \<open>*fileStat\<close> with the comma-ok form
  and returns false when either assertion fails, which is what happens for nil; otherwise
  it compares device and inode.
\<close>

definition SameFile :: "FileInfo \<Rightarrow> FileInfo \<Rightarrow> bool" where
  "SameFile fi1 fi2 =
     (case fi1 of
        None \<Rightarrow> False
      | Some fs1 \<Rightarrow>
          (case fi2 of
             None \<Rightarrow> False
           | Some fs2 \<Rightarrow> Dev fs1 = Dev fs2 \<and> Ino fs1 = Ino fs2))"

section \<open>event.go\<close>

type_synonym Op = "32 word"

text \<open>\<open>const ( Create Op = 1 << iota; Remove; Modify; Rename; Chmod; Move )\<close>\<close>

definition Create :: Op where "Create = push_bit 0 1"
definition Remove :: Op where "Remove = push_bit 1 1"
definition Modify :: Op where "Modify = push_bit 2 1"
definition Rename :: Op where "Rename = push_bit 3 1"
definition Chmod :: Op where "Chmod = push_bit 4 1"
definition Move :: Op where "Move = push_bit 5 1"

record Event =
  FileInfo :: FileInfo
  Path :: string
  Op :: Op

text \<open>
  The flags of an \<open>Op\<close> that are set, tested the way \<open>Op.String\<close> tests them
  (\<open>op&Create == Create\<close>, and so on in the order of the constants).
\<close>

definition setFlags :: "Op \<Rightarrow> Op list" where
  "setFlags op = filter (\<lambda>f. op AND f = f) [Create, Remove, Modify, Rename, Chmod, Move]"

text \<open>
  \<open>func (e *Event) IsDirEvent() bool\<close>. The receiver is a pointer: \<open>None\<close> is the nil
  pointer. The method guards the receiver only; \<open>e.FileInfo.IsDir()\<close> on a nil interface
  value panics.
\<close>

definition IsDirEvent :: "Event option \<Rightarrow> panic + bool" where
  "IsDirEvent e =
     (case e of
        None \<Rightarrow> Inr False
      | Some ev \<Rightarrow>
          (case FileInfo ev of
             None \<Rightarrow> Inl NilDereference
           | Some fs \<Rightarrow> Inr (IsDir fs)))"

text \<open>\<open>func (e *Event) HasOps(ops ...Op) bool\<close>\<close>

definition HasOps :: "Event option \<Rightarrow> Op list \<Rightarrow> bool" where
  "HasOps e ops =
     (case e of
        None \<Rightarrow> False
      | Some ev \<Rightarrow> list_ex (\<lambda>op. Op ev AND op \<noteq> 0) ops)"

section \<open>Errors and the file system\<close>

text \<open>
  The errors the watcher handles. \<open>os.Stat\<close> and \<open>os.ReadDir\<close> fail with a
  \<open>*fs.PathError\<close> (operation, path, cause). \<open>fmt.Errorf\<close> with a format that has no
  \<open>%w\<close> verb returns a plain text error: it keeps the message of its argument and
  nothing else.
\<close>

datatype errno = ENOENT | EACCES | EIO

datatype error =
    ErrWatcherStarted
  | ErrWatcherClosed
  | PathError string string errno
  | ErrorString string

fun errnoText :: "errno \<Rightarrow> string" where
  "errnoText ENOENT = ''no such file or directory''"
| "errnoText EACCES = ''permission denied''"
| "errnoText EIO = ''input/output error''"

text \<open>The method \<open>Error()\<close> of each error value.\<close>

fun Error :: "error \<Rightarrow> string" where
  "Error ErrWatcherStarted = ''watcher already started''"
| "Error ErrWatcherClosed = ''watcher already closed''"
| "Error (PathError opn path e) = opn @ '' '' @ path @ '': '' @ errnoText e"
| "Error (ErrorString s) = s"

text \<open>
  \<open>os.IsNotExist\<close> unwraps a \<open>*PathError\<close> (also \<open>*LinkError\<close> and \<open>*SyscallError\<close>,
  which the watcher never sees) and tests the cause; it does not look inside any other
  error, in particular not inside the text of an error made by \<open>fmt.Errorf\<close>.
\<close>

fun IsNotExist :: "error \<Rightarrow> bool" where
  "IsNotExist (PathError opn path e) = (e = ENOENT)"
| "IsNotExist ErrWatcherStarted = False"
| "IsNotExist ErrWatcherClosed = False"
| "IsNotExist (ErrorString s) = False"

text \<open>
  A directory entry as \<open>os.ReadDir\<close> returns it: its name, and the result of its
  method \<open>Info()\<close>, which stats the entry when called and may fail (the entry may have
  been removed since the directory was read).
\<close>

record DirEntry =
  Name :: string
  Info :: "error + fileStat"

text \<open>
  What the watcher calls outside its own two files: \<open>os.Stat\<close> and \<open>os.ReadDir\<close> read
  the file system at the moment of the call; \<open>filepath.Join\<close> and \<open>filepath.Dir\<close> are
  pure functions on paths. All four are parameters of the model.
\<close>

record world =
  Stat :: "string \<Rightarrow> error + fileStat"
  ReadDir :: "string \<Rightarrow> error + DirEntry list"
  Join :: "string \<Rightarrow> string \<Rightarrow> string"
  Dir :: "string \<Rightarrow> string"

section \<open>watch.go: the watcher\<close>

text \<open>
  A Go map is an association list with distinct keys: \<open>m[k]\<close> is \<open>map_of m k\<close>,
  \<open>m[k] = v\<close> is \<open>AList.update k v m\<close>, \<open>delete(m, k)\<close> is \<open>AList.delete k m\<close>, and
  \<open>range m\<close> visits the entries in the order of the list. Go leaves the order of
  \<open>range\<close> open; the order of the lists is arbitrary in every theorem below.
\<close>

type_synonym fileMap = "(string \<times> FileInfo) list"

datatype chan = Open | Closed

text \<open>
  \<open>type Watcher struct\<close>. Of a channel the record keeps whether \<open>close\<close> has been called
  on it; \<open>wg\<close> is the counter of the wait group (the number of scan goroutines alive);
  \<open>running\<close> is the \<open>atomic.Int32\<close>. What is sent on \<open>Events\<close> and \<open>Errors\<close> is returned by
  the functions that send. The mutex has no counterpart: the model runs one operation at
  a time.
\<close>

record Watcher =
  Events :: chan
  Errors :: chan
  closed :: chan
  names :: "(string \<times> unit) list"
  files :: fileMap
  wg :: nat
  running :: "32 word"

definition NewWatcher :: Watcher where
  "NewWatcher =
     \<lparr>Events = Open, Errors = Open, closed = Open, names = [], files = [], wg = 0, running = 0\<rparr>"

text \<open>\<open>CompareAndSwap(old, new)\<close> on the value \<open>v\<close>: the value afterwards, and whether it swapped.\<close>

definition CompareAndSwap :: "32 word \<Rightarrow> 32 word \<Rightarrow> 32 word \<Rightarrow> 32 word \<times> bool" where
  "CompareAndSwap old new v = (if v = old then (new, True) else (v, False))"

text \<open>
  \<open>func (w *Watcher) Start(d time.Duration) error\<close>: the watcher afterwards and the error
  returned (\<open>None\<close> is nil). Launching the goroutine is \<open>wg.Add(1)\<close>; the loop itself
  runs concurrently and is modelled by \<open>listForAll\<close> and \<open>pollEvents\<close> below.
\<close>

definition Start :: "int \<Rightarrow> Watcher \<Rightarrow> Watcher \<times> error option" where
  "Start d w =
     (case CompareAndSwap 0 1 (running w) of
        (v, False) \<Rightarrow> (w, Some ErrWatcherStarted)
      | (v, True) \<Rightarrow>
          (let w1 = w\<lparr>running := v\<rparr> in
           if closed w1 = Closed then (w1, Some ErrWatcherClosed)
           else (w1\<lparr>wg := wg w1 + 1\<rparr>, None)))"

text \<open>
  \<open>func (w *Watcher) Close()\<close>. In the shutdown sequence \<open>close(w.closed)\<close> makes every
  scan loop return, and \<open>w.wg.Wait()\<close> returns once they have: the counter is 0 afterwards.
\<close>

definition Close :: "Watcher \<Rightarrow> Watcher" where
  "Close w =
     (case CompareAndSwap 0 1 (running w) of
        (v, False) \<Rightarrow> w
      | (v, True) \<Rightarrow>
          w\<lparr>running := v, closed := Closed, wg := 0, Events := Closed, Errors := Closed,
            names := [], files := []\<rparr>)"

subsection \<open>Sending while shutdown may be signalled\<close>

text \<open>
  Every send of the scan loop is a \<open>select\<close> between a receive from \<open>w.closed\<close> and the
  send. Which case is taken depends on the consumer and on when \<open>Close\<close> runs, so it is a parameter:
  the budget \<open>Some n\<close> says that \<open>n\<close> more sends are taken before the \<open>closed\<close> case is,
  and \<open>None\<close> that the \<open>closed\<close> case is never taken. \<open>trySend\<close> is one \<open>select\<close>: \<open>None\<close>
  when the \<open>closed\<close> case is taken, otherwise the budget that is left.
\<close>

type_synonym budget = "nat option"

fun trySend :: "budget \<Rightarrow> budget option" where
  "trySend None = Some None"
| "trySend (Some 0) = None"
| "trySend (Some (Suc n)) = Some (Some n)"

text \<open>How a function of the scan loop ends: it ran to its end, it returned because
  shutdown was signalled, or it panicked.\<close>

datatype outcome = Completed | ShutDown | Panicked

text \<open>Adding what was sent first to the sends of the rest of a loop.\<close>

definition sentFirst :: "'a list \<Rightarrow> 'a list \<times> 'b \<Rightarrow> 'a list \<times> 'b" where
  "sentFirst xs r = (xs @ fst r, snd r)"

subsection \<open>Listing\<close>

text \<open>The loop of \<open>listForName\<close> over the directory entries:
  \<open>list[fp], _ = dirEntry.Info()\<close> stores nil when \<open>Info\<close> fails.\<close>

fun listEntries :: "world \<Rightarrow> string \<Rightarrow> DirEntry list \<Rightarrow> fileMap \<Rightarrow> fileMap" where
  "listEntries env name [] list = list"
| "listEntries env name (dirEntry # rest) list =
     (let fp = Join env name (Name dirEntry);
          fi = (case Info dirEntry of Inl err \<Rightarrow> None | Inr fs \<Rightarrow> Some fs)
      in listEntries env name rest (AList.update fp fi list))"

definition listForName :: "world \<Rightarrow> string \<Rightarrow> error + fileMap" where
  "listForName env name =
     (case Stat env name of
        Inl err \<Rightarrow> Inl (ErrorString (''name '' @ name @ '' with error '' @ Error err))
      | Inr stat \<Rightarrow>
          (let list = AList.update name (Some stat) [] in
           if \<not> IsDir stat then Inr list
           else
             (case ReadDir env name of
                Inl err \<Rightarrow>
                  Inl (ErrorString (''directory '' @ name @ '' with error '' @ Error err))
              | Inr dirEntries \<Rightarrow> Inr (listEntries env name dirEntries list))))"

text \<open>The last loop of \<open>doRemove\<close>: drop the entries whose parent directory is \<open>name\<close>.\<close>

fun dropChildren :: "world \<Rightarrow> string \<Rightarrow> fileMap \<Rightarrow> fileMap \<Rightarrow> fileMap" where
  "dropChildren env name [] fs = fs"
| "dropChildren env name ((fp, fi) # rest) fs =
     dropChildren env name rest (if Dir env fp = name then AList.delete fp fs else fs)"

text \<open>\<open>func (w *Watcher) doRemove(name string)\<close>; \<open>fi.IsDir()\<close> panics when the entry
  stored for \<open>name\<close> is nil.\<close>

definition doRemove :: "world \<Rightarrow> string \<Rightarrow> Watcher \<Rightarrow> panic + Watcher" where
  "doRemove env name w =
     (let w1 = w\<lparr>names := AList.delete name (names w)\<rparr> in
      case map_of (files w1) name of
        None \<Rightarrow> Inr w1
      | Some fi \<Rightarrow>
          (let w2 = w1\<lparr>files := AList.delete name (files w1)\<rparr> in
           case fi of
             None \<Rightarrow> Inl NilDereference
           | Some fs \<Rightarrow>
               if \<not> IsDir fs then Inr w2
               else Inr (w2\<lparr>files := dropChildren env name (files w2) (files w2)\<rparr>)))"

text \<open>\<open>for fp, fi := range fl { fileList[fp] = fi }\<close>\<close>

fun mergeInto :: "fileMap \<Rightarrow> fileMap \<Rightarrow> fileMap" where
  "mergeInto [] fileList = fileList"
| "mergeInto ((fp, fi) # rest) fileList = mergeInto rest (AList.update fp fi fileList)"

text \<open>
  The loop of \<open>listForAll\<close> over \<open>w.names\<close>. The result is the errors sent on \<open>Errors\<close>,
  the watcher, the file list, the budget left and how the loop ended. On shutdown the
  function returns nil, the empty map.
\<close>

fun listForAllLoop ::
  "world \<Rightarrow> (string \<times> unit) list \<Rightarrow> Watcher \<Rightarrow> fileMap \<Rightarrow> budget \<Rightarrow>
   error list \<times> Watcher \<times> fileMap \<times> budget \<times> outcome" where
  "listForAllLoop env [] w fileList b = ([], w, fileList, b, Completed)"
| "listForAllLoop env ((name, u) # rest) w fileList b =
     (case listForName env name of
        Inl err \<Rightarrow>
          (case (if IsNotExist err then doRemove env name w else Inr w) of
             Inl p \<Rightarrow> ([], w, fileList, b, Panicked)
           | Inr w' \<Rightarrow>
               (case trySend b of
                  None \<Rightarrow> ([], w', [], b, ShutDown)
                | Some b' \<Rightarrow> sentFirst [err] (listForAllLoop env rest w' fileList b')))
      | Inr fl \<Rightarrow> listForAllLoop env rest w (mergeInto fl fileList) b)"

definition listForAll ::
  "world \<Rightarrow> Watcher \<Rightarrow> budget \<Rightarrow> error list \<times> Watcher \<times> fileMap \<times> budget \<times> outcome" where
  "listForAll env w b = listForAllLoop env (names w) w [] b"

subsection \<open>The diff: pollEvents\<close>

text \<open>First loop: the entries of \<open>w.files\<close> that \<open>currFileList\<close> lacks go to \<open>removed\<close>.\<close>

fun findRemoved :: "fileMap \<Rightarrow> fileMap \<Rightarrow> fileMap \<Rightarrow> fileMap" where
  "findRemoved currFileList [] removed = removed"
| "findRemoved currFileList ((latestFp, latestFi) # rest) removed =
     findRemoved currFileList rest
       (if map_of currFileList latestFp = None then AList.update latestFp latestFi removed
        else removed)"

text \<open>
  Second loop, over \<open>currFileList\<close>: an entry \<open>w.files\<close> lacks goes to \<open>created\<close>; for an
  entry in both, \<open>latestFi.ModTime()\<close> panics when either metadata is nil, and a Modify
  event is sent when the modification time or the size differs. The result is the events
  sent, the map \<open>created\<close>, the budget left and how the loop ended.
\<close>

fun findModified ::
  "fileMap \<Rightarrow> fileMap \<Rightarrow> fileMap \<Rightarrow> budget \<Rightarrow> Event list \<times> fileMap \<times> budget \<times> outcome" where
  "findModified latest [] created b = ([], created, b, Completed)"
| "findModified latest ((fp, currFi) # rest) created b =
     (case map_of latest fp of
        None \<Rightarrow> findModified latest rest (AList.update fp currFi created) b
      | Some latestFi \<Rightarrow>
          (case latestFi of
             None \<Rightarrow> ([], created, b, Panicked)
           | Some l \<Rightarrow>
               (case currFi of
                  None \<Rightarrow> ([], created, b, Panicked)
                | Some c \<Rightarrow>
                    if ModTime l \<noteq> ModTime c \<or> Size l \<noteq> Size c then
                      (case trySend b of
                         None \<Rightarrow> ([], created, b, ShutDown)
                       | Some b' \<Rightarrow>
                           sentFirst [\<lparr>FileInfo = currFi, Path = fp, Op = Modify\<rparr>]
                             (findModified latest rest created b'))
                    else findModified latest rest created b)))"

text \<open>
  The inner loop of the coalescing, over \<open>created\<close>, for one entry of \<open>removed\<close>. After a
  match the loop deletes both entries, sends the event and goes on with the next entry
  of \<open>created\<close>: there is no \<open>break\<close>. An entry deleted from \<open>created\<close> is the one being
  visited, so the entries visited are those the map had when the loop began.
\<close>

fun pairWith ::
  "world \<Rightarrow> string \<Rightarrow> FileInfo \<Rightarrow> fileMap \<Rightarrow> fileMap \<Rightarrow> fileMap \<Rightarrow> budget \<Rightarrow>
   Event list \<times> fileMap \<times> fileMap \<times> budget \<times> outcome" where
  "pairWith env removeFp removeFi [] removed created b = ([], removed, created, b, Completed)"
| "pairWith env removeFp removeFi ((createFp, createFi) # rest) removed created b =
     (if SameFile removeFi createFi then
        (let ev = \<lparr>FileInfo = removeFi, Path = removeFp,
                   Op = (if Dir env removeFp = Dir env createFp then Rename else Move)\<rparr>;
             removed' = AList.delete removeFp removed;
             created' = AList.delete createFp created
         in case trySend b of
              None \<Rightarrow> ([], removed', created', b, ShutDown)
            | Some b' \<Rightarrow>
                sentFirst [ev] (pairWith env removeFp removeFi rest removed' created' b'))
      else pairWith env removeFp removeFi rest removed created b)"

text \<open>
  The outer loop, over \<open>removed\<close>. Only the entry being visited is ever deleted from
  \<open>removed\<close>, so the entries visited are those the map had when the loop began; the inner
  loop ranges over \<open>created\<close> as it is at that moment.
\<close>

fun coalesce ::
  "world \<Rightarrow> fileMap \<Rightarrow> fileMap \<Rightarrow> fileMap \<Rightarrow> budget \<Rightarrow>
   Event list \<times> fileMap \<times> fileMap \<times> budget \<times> outcome" where
  "coalesce env [] removed created b = ([], removed, created, b, Completed)"
| "coalesce env ((removeFp, removeFi) # rest) removed created b =
     (case pairWith env removeFp removeFi created removed created b of
        (evs, removed', created', b', out) \<Rightarrow>
          if out = Completed then sentFirst evs (coalesce env rest removed' created' b')
          else (evs, removed', created', b', out))"

text \<open>The last two \<open>range\<close> statements: one event with the given \<open>Op\<close> for every entry of a map.\<close>

fun sendEach :: "Op \<Rightarrow> fileMap \<Rightarrow> budget \<Rightarrow> Event list \<times> budget \<times> outcome" where
  "sendEach opn [] b = ([], b, Completed)"
| "sendEach opn ((fp, fi) # rest) b =
     (case trySend b of
        None \<Rightarrow> ([], b, ShutDown)
      | Some b' \<Rightarrow> sentFirst [\<lparr>FileInfo = fi, Path = fp, Op = opn\<rparr>] (sendEach opn rest b'))"

text \<open>
  \<open>func (w *Watcher) pollEvents(currFileList map[string]os.FileInfo)\<close>: the events sent on
  \<open>Events\<close>, in order, and how the function ended.
\<close>

definition pollEvents :: "world \<Rightarrow> budget \<Rightarrow> Watcher \<Rightarrow> fileMap \<Rightarrow> Event list \<times> outcome" where
  "pollEvents env b w currFileList =
     (let removed = findRemoved currFileList (files w) [] in
      case findModified (files w) currFileList [] b of
        (evs1, created, b1, out1) \<Rightarrow>
          if out1 \<noteq> Completed then (evs1, out1)
          else
            (case coalesce env removed removed created b1 of
               (evs2, removed', created', b2, out2) \<Rightarrow>
                 if out2 \<noteq> Completed then (evs1 @ evs2, out2)
                 else
                   (case sendEach Create created' b2 of
                      (evs3, b3, out3) \<Rightarrow>
                        if out3 \<noteq> Completed then (evs1 @ evs2 @ evs3, out3)
                        else
                          (case sendEach Remove removed' b3 of
                             (evs4, b4, out4) \<Rightarrow> (evs1 @ evs2 @ evs3 @ evs4, out4)))))"

section \<open>Replaying events\<close>

text \<open>
  The specification's round trip replays the events of a cycle onto the previous
  snapshot: a Create event adds an entry, a Remove event deletes one, a Modify event
  updates the metadata, and a Move or Rename event relocates an entry. This definition
  follows those words, not the code. An event has one path, the one the file was removed
  from, so the replay of a Move or Rename can take the entry away from there and has
  nowhere to put it.
\<close>

definition applyEvent :: "Event \<Rightarrow> fileMap \<Rightarrow> fileMap" where
  "applyEvent e s =
     (if Op e = Create then AList.update (Path e) (FileInfo e) s
      else if Op e = Remove then AList.delete (Path e) s
      else if Op e = Modify then AList.update (Path e) (FileInfo e) s
      else if Op e = Rename \<or> Op e = Move then AList.delete (Path e) s
      else s)"

definition replay :: "Event list \<Rightarrow> fileMap \<Rightarrow> fileMap" where
  "replay evs s = fold applyEvent evs s"

section \<open>A directory for the examples\<close>

text \<open>
  The examples watch the directory \<open>/d\<close>. On clean paths with a directory part,
  \<open>filepath.Dir\<close> is the path up to its last separator and \<open>filepath.Join\<close> puts a
  separator between its arguments.
\<close>

definition dirOfPath :: "string \<Rightarrow> string" where
  "dirOfPath p = rev (tl (dropWhile (\<lambda>c. c \<noteq> CHR ''/'') (rev p)))"

definition joinPath :: "string \<Rightarrow> string \<Rightarrow> string" where
  "joinPath d n = d @ ''/'' @ n"

text \<open>A regular file with modification time \<open>t\<close>, size \<open>n\<close> and inode \<open>i\<close>, and a directory.\<close>

definition regular :: "int \<Rightarrow> int \<Rightarrow> nat \<Rightarrow> fileStat" where
  "regular t n i = \<lparr>ModTime = t, Size = n, IsDir = False, Dev = 1, Ino = i\<rparr>"

definition directory :: "int \<Rightarrow> nat \<Rightarrow> fileStat" where
  "directory t i = \<lparr>ModTime = t, Size = 4096, IsDir = True, Dev = 1, Ino = i\<rparr>"

text \<open>The watcher after \<open>Add("/d")\<close> and \<open>Start\<close>, with the snapshot \<open>fs\<close>.\<close>

definition watching :: "fileMap \<Rightarrow> Watcher" where
  "watching fs = NewWatcher\<lparr>names := [(''/d'', ())], files := fs, wg := 1, running := 1\<rparr>"

text \<open>The directory \<open>/d\<close> has been deleted: every call fails with ENOENT.\<close>

definition goneWorld :: world where
  "goneWorld =
     \<lparr>Stat = (\<lambda>p. Inl (PathError ''stat'' p ENOENT)),
      ReadDir = (\<lambda>p. Inl (PathError ''open'' p ENOENT)),
      Join = joinPath, Dir = dirOfPath\<rparr>"

text \<open>
  The directory \<open>/d\<close> holds \<open>a\<close> and \<open>b\<close>; \<open>a\<close> is deleted after the directory is read and
  before its \<open>Info()\<close> is called.
\<close>

definition racyWorld :: world where
  "racyWorld =
     \<lparr>Stat = (\<lambda>p. if p = ''/d'' then Inr (directory 100 2)
                   else Inl (PathError ''stat'' p ENOENT)),
      ReadDir = (\<lambda>p. if p = ''/d''
                      then Inr [\<lparr>Name = ''a'', Info = Inl (PathError ''lstat'' ''/d/a'' ENOENT)\<rparr>,
                                \<lparr>Name = ''b'', Info = Inr (regular 50 5 8)\<rparr>]
                      else Inl (PathError ''open'' p ENOENT)),
      Join = joinPath, Dir = dirOfPath\<rparr>"

text \<open>
  Snapshots of \<open>/d\<close>. In \<open>beforeAll\<close> it holds \<open>a\<close>, \<open>m\<close> and \<open>x\<close>; in \<open>afterAll\<close>, \<open>a\<close> has
  been renamed to \<open>b\<close>, \<open>m\<close> has grown, \<open>x\<close> is gone and \<open>n\<close> is new.
\<close>

definition beforeAll :: fileMap where
  "beforeAll =
     [(''/d'', Some (directory 100 2)), (''/d/a'', Some (regular 50 5 7)),
      (''/d/m'', Some (regular 60 5 8)), (''/d/x'', Some (regular 70 5 9))]"

definition afterAll :: fileMap where
  "afterAll =
     [(''/d'', Some (directory 101 2)), (''/d/b'', Some (regular 50 5 7)),
      (''/d/m'', Some (regular 61 6 8)), (''/d/n'', Some (regular 80 5 10))]"

text \<open>The events of the cycle that finds \<open>afterAll\<close> when the snapshot is \<open>beforeAll\<close>.\<close>

definition eventsAll :: "Event list" where
  "eventsAll =
     [\<lparr>FileInfo = Some (directory 101 2), Path = ''/d'', Op = Modify\<rparr>,
      \<lparr>FileInfo = Some (regular 61 6 8), Path = ''/d/m'', Op = Modify\<rparr>,
      \<lparr>FileInfo = Some (regular 50 5 7), Path = ''/d/a'', Op = Rename\<rparr>,
      \<lparr>FileInfo = Some (regular 80 5 10), Path = ''/d/n'', Op = Create\<rparr>,
      \<lparr>FileInfo = Some (regular 70 5 9), Path = ''/d/x'', Op = Remove\<rparr>]"

text \<open>\<open>mv /d/a /d/b; ln /d/b /d/c\<close>: one file removed, two created paths with its inode.\<close>

definition beforeLink :: fileMap where
  "beforeLink = [(''/d'', Some (directory 100 2)), (''/d/a'', Some (regular 50 5 7))]"

definition afterLink :: fileMap where
  "afterLink =
     [(''/d'', Some (directory 101 2)), (''/d/b'', Some (regular 50 5 7)),
      (''/d/c'', Some (regular 50 5 7))]"

text \<open>\<open>/d/a\<close> and \<open>/d/a2\<close> are two links to one file; then \<open>mv /d/a /d/b; rm /d/a2\<close>.\<close>

definition beforeTwo :: fileMap where
  "beforeTwo =
     [(''/d'', Some (directory 100 2)), (''/d/a'', Some (regular 50 5 7)),
      (''/d/a2'', Some (regular 50 5 7))]"

definition afterTwo :: fileMap where
  "afterTwo = [(''/d'', Some (directory 101 2)), (''/d/b'', Some (regular 50 5 7))]"

text \<open>\<open>/d/a\<close> is replaced by another file of the same size and modification time
  (\<open>cp -p\<close> over a fresh name, then a rename onto \<open>/d/a\<close>); the directory's time is the same.\<close>

definition beforeSwap :: fileMap where
  "beforeSwap = [(''/d'', Some (directory 100 2)), (''/d/a'', Some (regular 50 5 7))]"

definition afterSwap :: fileMap where
  "afterSwap = [(''/d'', Some (directory 100 2)), (''/d/a'', Some (regular 50 5 11))]"

section \<open>Lemmas about the parts of pollEvents\<close>

lemma fst_sentFirst [simp]: "fst (sentFirst xs r) = xs @ fst r"
  by (simp add: sentFirst_def)

lemma snd_sentFirst [simp]: "snd (sentFirst xs r) = snd r"
  by (simp add: sentFirst_def)

lemma sentFirst_eq: "sentFirst xs r = (ys, s) \<longleftrightarrow> ys = xs @ fst r \<and> s = snd r"
  by (auto simp: sentFirst_def)

lemma findModified_ops:
  "e \<in> set (fst (findModified latest xs created b)) \<Longrightarrow> Op e = Modify"
  by (induction xs arbitrary: created b) (auto split: option.splits if_splits)

lemma pairWith_ops:
  "e \<in> set (fst (pairWith env rp rfi xs removed created b)) \<Longrightarrow> Op e = Rename \<or> Op e = Move"
  by (induction xs arbitrary: removed created b) (auto simp: Let_def split: option.splits if_splits)

lemma pairWith_ops':
  "pairWith env rp rfi xs removed created b = (evs, st) \<Longrightarrow> e \<in> set evs \<Longrightarrow>
   Op e = Rename \<or> Op e = Move"
  using pairWith_ops [of e env rp rfi xs removed created b] by simp

lemma coalesce_ops:
  "e \<in> set (fst (coalesce env xs removed created b)) \<Longrightarrow> Op e = Rename \<or> Op e = Move"
  by (induction xs arbitrary: removed created b)
     (auto split: prod.splits if_splits dest: pairWith_ops')

lemma sendEach_ops:
  "e \<in> set (fst (sendEach opn xs b)) \<Longrightarrow> Op e = opn"
  by (induction xs arbitrary: b) (auto split: option.splits)

lemma pollEvents_phases:
  "\<exists>ms mv cs rs.
     fst (pollEvents env b w currFileList) = ms @ mv @ cs @ rs \<and>
     (\<forall>e \<in> set ms. Op e = Modify) \<and>
     (\<forall>e \<in> set mv. Op e = Rename \<or> Op e = Move) \<and>
     (\<forall>e \<in> set cs. Op e = Create) \<and>
     (\<forall>e \<in> set rs. Op e = Remove)"
proof -
  obtain evs1 created b1 out1 where
    m: "findModified (files w) currFileList [] b = (evs1, created, b1, out1)"
    by (metis prod_cases4)
  have ops1: "\<forall>e \<in> set evs1. Op e = Modify"
    using findModified_ops [of _ "files w" currFileList "[]" b] m by simp
  let ?removed = "findRemoved currFileList (files w) []"
  obtain evs2 removed' created' b2 out2 where
    c: "coalesce env ?removed ?removed created b1 = (evs2, removed', created', b2, out2)"
    by (metis prod_cases5)
  have ops2: "\<forall>e \<in> set evs2. Op e = Rename \<or> Op e = Move"
    using coalesce_ops [of _ env ?removed ?removed created b1] c by simp
  obtain evs3 b3 out3 where s3: "sendEach Create created' b2 = (evs3, b3, out3)"
    by (metis prod_cases3)
  have ops3: "\<forall>e \<in> set evs3. Op e = Create"
    using sendEach_ops [of _ Create created' b2] s3 by simp
  obtain evs4 b4 out4 where s4: "sendEach Remove removed' b3 = (evs4, b4, out4)"
    by (metis prod_cases3)
  have ops4: "\<forall>e \<in> set evs4. Op e = Remove"
    using sendEach_ops [of _ Remove removed' b3] s4 by simp
  let ?P = "\<lambda>ms mv cs rs.
     fst (pollEvents env b w currFileList) = ms @ mv @ cs @ rs \<and>
     (\<forall>e \<in> set ms. Op e = Modify) \<and>
     (\<forall>e \<in> set mv. Op e = Rename \<or> Op e = Move) \<and>
     (\<forall>e \<in> set cs. Op e = Create) \<and>
     (\<forall>e \<in> set rs. Op e = Remove)"
  have "?P evs1 [] [] [] \<or> ?P evs1 evs2 [] [] \<or> ?P evs1 evs2 evs3 [] \<or> ?P evs1 evs2 evs3 evs4"
    using ops1 ops2 ops3 ops4 by (simp add: pollEvents_def Let_def m c s3 s4)
  then show ?thesis by blast
qed


subsection \<open>findRemoved\<close>

lemma findRemoved_distinct:
  "distinct (map fst acc) \<Longrightarrow> distinct (map fst (findRemoved cur xs acc))"
  by (induction xs arbitrary: acc) (auto simp: distinct_update)

lemma findRemoved_map_of:
  "distinct (map fst xs) \<Longrightarrow>
   map_of (findRemoved cur xs acc) k =
     (if map_of cur k = None \<and> k \<in> fst ` set xs then map_of xs k else map_of acc k)"
proof (induction xs arbitrary: acc)
  case Nil
  then show ?case by simp
next
  case (Cons a xs)
  obtain k0 v0 where a: "a = (k0, v0)" by (cases a)
  from Cons.prems a have k0: "k0 \<notin> fst ` set xs" and d: "distinct (map fst xs)" by auto
  show ?case
    using k0 by (auto simp: a Cons.IH [OF d] update_conv')
qed

lemma findRemoved_keys:
  "k \<in> fst ` set (findRemoved cur xs acc) \<Longrightarrow>
   k \<in> fst ` set acc \<or> (k \<in> fst ` set xs \<and> map_of cur k = None)"
proof (induction xs arbitrary: acc)
  case Nil
  then show ?case by simp
next
  case (Cons a xs)
  obtain k0 v0 where a: "a = (k0, v0)" by (cases a)
  from Cons.IH [of "if map_of cur k0 = None then AList.update k0 v0 acc else acc"] Cons.prems
  show ?case
    by (auto simp: a dom_update split: if_splits)
qed

subsection \<open>findModified\<close>

lemma findModified_distinct:
  "distinct (map fst created) \<Longrightarrow>
   distinct (map fst (fst (snd (findModified latest xs created b))))"
  by (induction xs arbitrary: created b) (auto simp: distinct_update split: option.splits)

lemma findModified_keys:
  "k \<in> fst ` set (fst (snd (findModified latest xs created b))) \<Longrightarrow>
   k \<in> fst ` set created \<or> (k \<in> fst ` set xs \<and> map_of latest k = None)"
proof (induction xs arbitrary: created b)
  case Nil
  then show ?case by simp
next
  case (Cons a xs)
  obtain fp currFi where a: "a = (fp, currFi)" by (cases a)
  show ?case
  proof (cases "map_of latest fp")
    case None
    with Cons.prems a have
      "k \<in> fst ` set (fst (snd (findModified latest xs (AList.update fp currFi created) b)))"
      by simp
    from Cons.IH [OF this] None show ?thesis
      by (auto simp: a dom_update)
  next
    case (Some latestFi)
    have "k \<in> fst ` set created \<or>
          (\<exists>b'. k \<in> fst ` set (fst (snd (findModified latest xs created b'))))"
      using Cons.prems Some by (auto simp: a split: option.splits if_splits)
    with Cons.IH show ?thesis by (auto simp: a)
  qed
qed

lemma findModified_map_of:
  "snd (snd (snd (findModified latest xs created b))) = Completed \<Longrightarrow>
   distinct (map fst xs) \<Longrightarrow>
   map_of (fst (snd (findModified latest xs created b))) k =
     (if map_of latest k = None \<and> k \<in> fst ` set xs then map_of xs k else map_of created k)"
proof (induction xs arbitrary: created b)
  case Nil
  then show ?case by simp
next
  case (Cons a xs)
  obtain fp currFi where a: "a = (fp, currFi)" by (cases a)
  from Cons.prems a have fp: "fp \<notin> fst ` set xs" and d: "distinct (map fst xs)" by auto
  show ?case
  proof (cases "map_of latest fp")
    case None
    with Cons.prems a have
      "snd (snd (snd (findModified latest xs (AList.update fp currFi created) b))) = Completed"
      by simp
    from Cons.IH [OF this d] None fp show ?thesis
      by (auto simp: a update_conv')
  next
    case (Some latestFi)
    have "\<exists>b'. snd (snd (snd (findModified latest xs created b'))) = Completed \<and>
            fst (snd (findModified latest (a # xs) created b)) =
            fst (snd (findModified latest xs created b'))"
      using Cons.prems(1) Some by (auto simp: a split: option.splits if_splits)
    then obtain b' where
      c: "snd (snd (snd (findModified latest xs created b'))) = Completed" and
      e: "fst (snd (findModified latest (a # xs) created b)) =
            fst (snd (findModified latest xs created b'))"
      by blast
    from Cons.IH [OF c d] e Some fp show ?thesis
      by (auto simp: a)
  qed
qed

lemma findModified_events:
  "e \<in> set (fst (findModified latest xs created b)) \<Longrightarrow>
   \<exists>l c. (Path e, Some c) \<in> set xs \<and> map_of latest (Path e) = Some (Some l) \<and>
         (ModTime l \<noteq> ModTime c \<or> Size l \<noteq> Size c) \<and>
         e = \<lparr>FileInfo = Some c, Path = Path e, Op = Modify\<rparr>"
proof (induction xs arbitrary: created b)
  case Nil
  then show ?case by simp
next
  case (Cons a xs)
  obtain fp currFi where a: "a = (fp, currFi)" by (cases a)
  have "(\<exists>created' b'. e \<in> set (fst (findModified latest xs created' b'))) \<or>
        (\<exists>l c. currFi = Some c \<and> map_of latest fp = Some (Some l) \<and>
           (ModTime l \<noteq> ModTime c \<or> Size l \<noteq> Size c) \<and>
           e = \<lparr>FileInfo = Some c, Path = fp, Op = Modify\<rparr>)"
    using Cons.prems by (auto simp: a split: option.splits if_splits)
  then show ?case
  proof
    assume "\<exists>created' b'. e \<in> set (fst (findModified latest xs created' b'))"
    with Cons.IH show ?thesis by fastforce
  next
    assume "\<exists>l c. currFi = Some c \<and> map_of latest fp = Some (Some l) \<and>
           (ModTime l \<noteq> ModTime c \<or> Size l \<noteq> Size c) \<and>
           e = \<lparr>FileInfo = Some c, Path = fp, Op = Modify\<rparr>"
    then show ?thesis by (auto simp: a)
  qed
qed

lemma findModified_Completed:
  "snd (snd (snd (findModified latest xs created b))) = Completed \<Longrightarrow>
   (fp, cfi) \<in> set xs \<Longrightarrow> map_of latest fp = Some lfi \<Longrightarrow>
   \<exists>l c. lfi = Some l \<and> cfi = Some c \<and>
     ((ModTime l \<noteq> ModTime c \<or> Size l \<noteq> Size c) \<longrightarrow>
       \<lparr>FileInfo = cfi, Path = fp, Op = Modify\<rparr> \<in> set (fst (findModified latest xs created b)))"
proof (induction xs arbitrary: created b)
  case Nil
  then show ?case by simp
next
  case (Cons a xs)
  obtain fp0 currFi where a: "a = (fp0, currFi)" by (cases a)
  have step: "\<exists>created' b'.
      snd (snd (snd (findModified latest xs created' b'))) = Completed \<and>
      set (fst (findModified latest xs created' b')) \<subseteq>
        set (fst (findModified latest (a # xs) created b))"
    using Cons.prems(1) by (auto simp: a split: option.splits if_splits)
  show ?case
  proof (cases "(fp, cfi) = a")
    case True
    with Cons.prems a show ?thesis
      by (auto split: option.splits if_splits)
  next
    case False
    with Cons.prems have m: "(fp, cfi) \<in> set xs" by simp
    from step obtain created' b' where
      c: "snd (snd (snd (findModified latest xs created' b'))) = Completed" and
      sub: "set (fst (findModified latest xs created' b')) \<subseteq>
            set (fst (findModified latest (a # xs) created b))"
      by blast
    from Cons.IH [OF c m Cons.prems(3)] sub show ?thesis
      by (elim exE conjE, intro exI conjI) auto
  qed
qed

subsection \<open>sendEach\<close>

lemma sendEach_events:
  "e \<in> set (fst (sendEach opn xs b)) \<Longrightarrow> (Path e, FileInfo e) \<in> set xs \<and> Op e = opn"
proof (induction xs arbitrary: b)
  case Nil
  then show ?case by simp
next
  case (Cons a xs)
  obtain fp fi where a: "a = (fp, fi)" by (cases a)
  from Cons.prems have
    "e = \<lparr>FileInfo = fi, Path = fp, Op = opn\<rparr> \<or> (\<exists>b'. e \<in> set (fst (sendEach opn xs b')))"
    by (auto simp: a split: option.splits)
  with Cons.IH show ?case by (auto simp: a)
qed

lemma sendEach_Completed:
  "snd (snd (sendEach opn xs b)) = Completed \<Longrightarrow>
   fst (sendEach opn xs b) = map (\<lambda>x. \<lparr>FileInfo = snd x, Path = fst x, Op = opn\<rparr>) xs"
  by (induction xs arbitrary: b) (auto split: option.splits)

subsection \<open>pairWith\<close>

lemma pairWith_events:
  "e \<in> set (fst (pairWith env rp rfi xs removed created b)) \<Longrightarrow>
   \<exists>x \<in> set xs. SameFile rfi (snd x) \<and>
     e = \<lparr>FileInfo = rfi, Path = rp,
          Op = (if Dir env rp = Dir env (fst x) then Rename else Move)\<rparr>"
proof (induction xs arbitrary: removed created b)
  case Nil
  then show ?case by simp
next
  case (Cons a xs)
  obtain cp cfi where a: "a = (cp, cfi)" by (cases a)
  let ?ev = "\<lparr>FileInfo = rfi, Path = rp,
               Op = (if Dir env rp = Dir env cp then Rename else Move)\<rparr>"
  from Cons.prems have
    "(SameFile rfi cfi \<and> e = ?ev) \<or>
     (\<exists>removed' created' b'. e \<in> set (fst (pairWith env rp rfi xs removed' created' b')))"
    by (auto simp: a Let_def split: option.splits if_splits)
  then show ?case
  proof
    assume "SameFile rfi cfi \<and> e = ?ev"
    then show ?thesis by (auto simp: a)
  next
    assume "\<exists>removed' created' b'. e \<in> set (fst (pairWith env rp rfi xs removed' created' b'))"
    with Cons.IH show ?thesis by fastforce
  qed
qed

lemma pairWith_events_path:
  "e \<in> set (fst (pairWith env rp rfi xs removed created b)) \<Longrightarrow> Path e = rp"
  using pairWith_events [of e env rp rfi xs removed created b] by auto

lemma pairWith_created_subset:
  "set (fst (snd (snd (pairWith env rp rfi xs removed created b)))) \<subseteq> set created"
proof (induction xs arbitrary: removed created b)
  case Nil
  then show ?case by simp
next
  case (Cons a xs)
  obtain cp cfi where a: "a = (cp, cfi)" by (cases a)
  have d: "set (AList.delete cp created) \<subseteq> set created"
    by (auto simp: AList.delete_eq)
  show ?case
  proof (cases "SameFile rfi cfi")
    case False
    with Cons.IH [of removed created b] show ?thesis by (simp add: a)
  next
    case True
    show ?thesis
    proof (cases "trySend b")
      case None
      with True d show ?thesis by (simp add: a Let_def)
    next
      case (Some b')
      with True d Cons.IH [of "AList.delete rp removed" "AList.delete cp created" b']
      show ?thesis by (auto simp: a Let_def)
    qed
  qed
qed

lemma pairWith_created_distinct:
  "distinct (map fst created) \<Longrightarrow>
   distinct (map fst (fst (snd (snd (pairWith env rp rfi xs removed created b)))))"
  by (induction xs arbitrary: removed created b)
     (auto simp: Let_def distinct_delete split: option.splits)

lemma pairWith_created_map_of:
  "map_of (fst (snd (snd (pairWith env rp rfi xs removed created b)))) k = map_of created k \<or>
   (\<exists>cfi. (k, cfi) \<in> set xs \<and> SameFile rfi cfi)"
proof (induction xs arbitrary: removed created b)
  case Nil
  then show ?case by simp
next
  case (Cons a xs)
  obtain cp cfi where a: "a = (cp, cfi)" by (cases a)
  show ?case
  proof (cases "SameFile rfi cfi")
    case False
    with Cons.IH [of removed created b] show ?thesis by (auto simp: a)
  next
    case True
    show ?thesis
    proof (cases "k = cp")
      case True
      with \<open>SameFile rfi cfi\<close> show ?thesis by (auto simp: a)
    next
      case False
      then have m: "map_of (AList.delete cp created) k = map_of created k" by simp
      show ?thesis
      proof (cases "trySend b")
        case None
        with True m show ?thesis by (simp add: a Let_def)
      next
        case (Some b')
        with True m Cons.IH [of "AList.delete rp removed" "AList.delete cp created" b']
        show ?thesis by (auto simp: a Let_def)
      qed
    qed
  qed
qed

lemma pairWith_removed:
  "fst (snd (pairWith env rp rfi xs removed created b)) = removed \<or>
   fst (snd (pairWith env rp rfi xs removed created b)) = AList.delete rp removed"
proof (induction xs arbitrary: removed created b)
  case Nil
  then show ?case by simp
next
  case (Cons a xs)
  obtain cp cfi where a: "a = (cp, cfi)" by (cases a)
  show ?case
  proof (cases "SameFile rfi cfi")
    case False
    with Cons.IH [of removed created b] show ?thesis by (simp add: a)
  next
    case True
    show ?thesis
    proof (cases "trySend b")
      case None
      with True show ?thesis by (simp add: a Let_def)
    next
      case (Some b')
      with True Cons.IH [of "AList.delete rp removed" "AList.delete cp created" b']
      show ?thesis by (auto simp: a Let_def delete_idem)
    qed
  qed
qed

lemma pairWith_Completed_events:
  "snd (snd (snd (snd (pairWith env rp rfi xs removed created b)))) = Completed \<Longrightarrow>
   fst (pairWith env rp rfi xs removed created b) =
     map (\<lambda>x. \<lparr>FileInfo = rfi, Path = rp,
                Op = (if Dir env rp = Dir env (fst x) then Rename else Move)\<rparr>)
         (filter (\<lambda>x. SameFile rfi (snd x)) xs)"
  by (induction xs arbitrary: removed created b)
     (auto simp: Let_def split: option.splits)

lemma pairWith_Completed_created:
  "snd (snd (snd (snd (pairWith env rp rfi xs removed created b)))) = Completed \<Longrightarrow>
   (cp, cfi) \<in> set xs \<Longrightarrow> SameFile rfi cfi \<Longrightarrow>
   cp \<notin> fst ` set (fst (snd (snd (pairWith env rp rfi xs removed created b))))"
proof (induction xs arbitrary: removed created b)
  case Nil
  then show ?case by simp
next
  case (Cons a xs)
  obtain cp0 cfi0 where a: "a = (cp0, cfi0)" by (cases a)
  show ?case
  proof (cases "(cp, cfi) = a")
    case True
    then have eq: "cp0 = cp" "cfi0 = cfi" using a by auto
    from Cons.prems(1,3) obtain b' where
      r: "fst (snd (snd (pairWith env rp rfi (a # xs) removed created b))) =
          fst (snd (snd (pairWith env rp rfi xs (AList.delete rp removed)
                 (AList.delete cp created) b')))"
      by (auto simp: a eq Let_def split: option.splits)
    have "cp \<notin> fst ` set (AList.delete cp created)"
      by (rule delete_notin_dom)
    with pairWith_created_subset [of env rp rfi xs "AList.delete rp removed"
           "AList.delete cp created" b'] r
    show ?thesis by (auto simp del: pairWith.simps)
  next
    case False
    with Cons.prems have m: "(cp, cfi) \<in> set xs" by simp
    from Cons.prems(1) obtain removed1 created1 b1 where
      c: "snd (snd (snd (snd (pairWith env rp rfi xs removed1 created1 b1)))) = Completed" and
      r: "fst (snd (snd (pairWith env rp rfi (a # xs) removed created b))) =
          fst (snd (snd (pairWith env rp rfi xs removed1 created1 b1)))"
      by (auto simp: a Let_def split: option.splits if_splits)
    from Cons.IH [OF c m Cons.prems(3)] r show ?thesis by simp
  qed
qed

lemma pairWith_Completed_removed:
  "snd (snd (snd (snd (pairWith env rp rfi xs removed created b)))) = Completed \<Longrightarrow>
   fst (snd (pairWith env rp rfi xs removed created b)) =
     (if \<exists>x \<in> set xs. SameFile rfi (snd x) then AList.delete rp removed else removed)"
proof (induction xs arbitrary: removed created b)
  case Nil
  then show ?case by simp
next
  case (Cons a xs)
  obtain cp cfi where a: "a = (cp, cfi)" by (cases a)
  show ?case
  proof (cases "SameFile rfi cfi")
    case False
    with Cons.prems have
      "snd (snd (snd (snd (pairWith env rp rfi xs removed created b)))) = Completed"
      by (simp add: a)
    from Cons.IH [OF this] False show ?thesis by (simp add: a)
  next
    case True
    with Cons.prems obtain b' where
      t: "trySend b = Some b'" and
      c: "snd (snd (snd (snd (pairWith env rp rfi xs (AList.delete rp removed)
             (AList.delete cp created) b')))) = Completed"
      by (auto simp: a Let_def split: option.splits)
    from Cons.IH [OF c] True t show ?thesis
      by (simp add: a Let_def delete_idem)
  qed
qed

subsection \<open>coalesce\<close>

lemma coalesce_Cons:
  "coalesce env ((rp, rfi) # rest) removed created b =
     (if snd (snd (snd (snd (pairWith env rp rfi created removed created b)))) = Completed
      then sentFirst (fst (pairWith env rp rfi created removed created b))
             (coalesce env rest
                (fst (snd (pairWith env rp rfi created removed created b)))
                (fst (snd (snd (pairWith env rp rfi created removed created b))))
                (fst (snd (snd (snd (pairWith env rp rfi created removed created b))))))
      else pairWith env rp rfi created removed created b)"
  by (simp split: prod.splits)

lemma coalesce_events:
  "e \<in> set (fst (coalesce env rs removed created b)) \<Longrightarrow>
   \<exists>x \<in> set rs. Path e = fst x \<and> FileInfo e = snd x \<and> (Op e = Rename \<or> Op e = Move)"
proof (induction rs arbitrary: removed created b)
  case Nil
  then show ?case by simp
next
  case (Cons a rs)
  obtain rp rfi where a: "a = (rp, rfi)" by (cases a)
  let ?p = "pairWith env rp rfi created removed created b"
  from Cons.prems have
    "e \<in> set (fst ?p) \<or>
     (\<exists>removed' created' b'. e \<in> set (fst (coalesce env rs removed' created' b')))"
    by (auto simp: a coalesce_Cons simp del: coalesce.simps(2) split: if_splits)
  then show ?case
  proof
    assume "e \<in> set (fst ?p)"
    from pairWith_events [OF this] show ?thesis by (auto simp: a)
  next
    assume "\<exists>removed' created' b'. e \<in> set (fst (coalesce env rs removed' created' b'))"
    with Cons.IH show ?thesis by fastforce
  qed
qed

lemma coalesce_removed_subset:
  "set (fst (snd (coalesce env rs removed created b))) \<subseteq> set removed"
proof (induction rs arbitrary: removed created b)
  case Nil
  then show ?case by simp
next
  case (Cons a rs)
  obtain rp rfi where a: "a = (rp, rfi)" by (cases a)
  let ?p = "pairWith env rp rfi created removed created b"
  have p: "set (fst (snd ?p)) \<subseteq> set removed"
    using pairWith_removed [of env rp rfi created removed created b]
    by (auto simp: AList.delete_eq)
  show ?case
  proof (cases "snd (snd (snd (snd ?p))) = Completed")
    case True
    with Cons.IH [of "fst (snd ?p)" "fst (snd (snd ?p))" "fst (snd (snd (snd ?p)))"] p
    show ?thesis
      by (auto simp: a coalesce_Cons simp del: coalesce.simps(2))
  next
    case False
    with p show ?thesis
      by (auto simp: a coalesce_Cons simp del: coalesce.simps(2))
  qed
qed

lemma coalesce_created_subset:
  "set (fst (snd (snd (coalesce env rs removed created b)))) \<subseteq> set created"
proof (induction rs arbitrary: removed created b)
  case Nil
  then show ?case by simp
next
  case (Cons a rs)
  obtain rp rfi where a: "a = (rp, rfi)" by (cases a)
  let ?p = "pairWith env rp rfi created removed created b"
  have p: "set (fst (snd (snd ?p))) \<subseteq> set created"
    by (rule pairWith_created_subset)
  show ?case
  proof (cases "snd (snd (snd (snd ?p))) = Completed")
    case True
    with Cons.IH [of "fst (snd ?p)" "fst (snd (snd ?p))" "fst (snd (snd (snd ?p)))"] p
    show ?thesis
      by (auto simp: a coalesce_Cons simp del: coalesce.simps(2))
  next
    case False
    with p show ?thesis
      by (auto simp: a coalesce_Cons simp del: coalesce.simps(2))
  qed
qed

lemma coalesce_removed_kept:
  "snd (snd (snd (snd (coalesce env rs removed created b)))) = Completed \<Longrightarrow>
   (\<exists>e \<in> set (fst (coalesce env rs removed created b)). Path e = k) \<or>
   map_of (fst (snd (coalesce env rs removed created b))) k = map_of removed k"
proof (induction rs arbitrary: removed created b)
  case Nil
  then show ?case by simp
next
  case (Cons a rs)
  obtain rp rfi where a: "a = (rp, rfi)" by (cases a)
  let ?p = "pairWith env rp rfi created removed created b"
  let ?c = "coalesce env rs (fst (snd ?p)) (fst (snd (snd ?p))) (fst (snd (snd (snd ?p))))"
  have pc: "snd (snd (snd (snd ?p))) = Completed"
    using Cons.prems
    by (auto simp: a coalesce_Cons simp del: coalesce.simps(2) split: if_splits)
  then have eq: "coalesce env (a # rs) removed created b = sentFirst (fst ?p) ?c"
    by (simp add: a coalesce_Cons del: coalesce.simps(2))
  with Cons.prems have cc: "snd (snd (snd (snd ?c))) = Completed" by simp
  have step: "(\<exists>e \<in> set (fst ?p). Path e = k) \<or> map_of (fst (snd ?p)) k = map_of removed k"
  proof (cases "\<exists>x \<in> set created. SameFile rfi (snd x)")
    case False
    with pairWith_Completed_removed [OF pc] show ?thesis by simp
  next
    case True
    then have ne: "fst ?p \<noteq> []"
      using pairWith_Completed_events [OF pc] by (auto simp: filter_empty_conv)
    then obtain e where e: "e \<in> set (fst ?p)" by (cases "fst ?p") auto
    from pairWith_events_path [OF e] have pe: "Path e = rp" .
    show ?thesis
    proof (cases "k = rp")
      case True
      with e pe show ?thesis by blast
    next
      case False
      with pairWith_removed [of env rp rfi created removed created b]
      show ?thesis by auto
    qed
  qed
  from Cons.IH [OF cc] step show ?case
    by (auto simp: eq)
qed

lemma coalesce_created_kept:
  "distinct (map fst created) \<Longrightarrow> map_of created c = Some fc \<Longrightarrow>
   \<forall>x \<in> set rs. \<not> SameFile (snd x) fc \<Longrightarrow>
   map_of (fst (snd (snd (coalesce env rs removed created b)))) c = Some fc"
proof (induction rs arbitrary: removed created b)
  case Nil
  then show ?case by simp
next
  case (Cons a rs)
  obtain rp rfi where a: "a = (rp, rfi)" by (cases a)
  let ?p = "pairWith env rp rfi created removed created b"
  let ?c = "coalesce env rs (fst (snd ?p)) (fst (snd (snd ?p))) (fst (snd (snd (snd ?p))))"
  from Cons.prems(3) a have nr: "\<not> SameFile rfi fc" and rest: "\<forall>x \<in> set rs. \<not> SameFile (snd x) fc"
    by auto
  have "map_of (fst (snd (snd ?p))) c = map_of created c \<or>
        (\<exists>cfi. (c, cfi) \<in> set created \<and> SameFile rfi cfi)"
    by (rule pairWith_created_map_of)
  moreover have "\<And>cfi. (c, cfi) \<in> set created \<Longrightarrow> cfi = fc"
    using Cons.prems(1,2) by (simp add: map_of_eq_Some_iff)
  ultimately have m: "map_of (fst (snd (snd ?p))) c = Some fc"
    using nr Cons.prems(2) by auto
  have d: "distinct (map fst (fst (snd (snd ?p))))"
    using Cons.prems(1) by (rule pairWith_created_distinct)
  show ?case
  proof (cases "snd (snd (snd (snd ?p))) = Completed")
    case True
    with Cons.IH [OF d m rest] show ?thesis
      by (simp add: a coalesce_Cons del: coalesce.simps(2))
  next
    case False
    with m show ?thesis
      by (simp add: a coalesce_Cons del: coalesce.simps(2))
  qed
qed

lemma filter_single:
  "distinct (map fst xs) \<Longrightarrow> (c, fc) \<in> set xs \<Longrightarrow> P (c, fc) \<Longrightarrow>
   \<forall>x \<in> set xs. P x \<longrightarrow> fst x = c \<Longrightarrow> filter P xs = [(c, fc)]"
proof (induction xs)
  case Nil
  then show ?case by simp
next
  case (Cons a xs)
  show ?case
  proof (cases "a = (c, fc)")
    case True
    with Cons.prems have "\<forall>x \<in> set xs. \<not> P x"
      by (force simp: image_iff)
    then have "filter P xs = []" by (simp add: filter_empty_conv)
    with True Cons.prems(3) show ?thesis by simp
  next
    case False
    with Cons.prems have m: "(c, fc) \<in> set xs" by simp
    with Cons.prems(1) have "fst a \<noteq> c" by (force simp: image_iff)
    with Cons.prems(4) have "\<not> P a" by auto
    moreover from Cons.IH [OF _ m Cons.prems(3)] Cons.prems have "filter P xs = [(c, fc)]"
      by simp
    ultimately show ?thesis by simp
  qed
qed

lemma coalesce_no_event:
  "r \<notin> fst ` set rs \<Longrightarrow> filter (\<lambda>e. Path e = r) (fst (coalesce env rs removed created b)) = []"
  using coalesce_events [of _ env rs removed created b]
  by (fastforce simp: filter_empty_conv)

lemma coalesce_pair:
  "snd (snd (snd (snd (coalesce env rs removed created b)))) = Completed \<Longrightarrow>
   distinct (map fst rs) \<Longrightarrow> (r, fr) \<in> set rs \<Longrightarrow>
   distinct (map fst created) \<Longrightarrow> map_of created c = Some fc \<Longrightarrow> SameFile fr fc \<Longrightarrow>
   \<forall>x \<in> set created. SameFile fr (snd x) \<longrightarrow> fst x = c \<Longrightarrow>
   \<forall>x \<in> set rs. SameFile (snd x) fc \<longrightarrow> fst x = r \<Longrightarrow>
   filter (\<lambda>e. Path e = r) (fst (coalesce env rs removed created b)) =
     [\<lparr>FileInfo = fr, Path = r, Op = (if Dir env r = Dir env c then Rename else Move)\<rparr>] \<and>
   r \<notin> fst ` set (fst (snd (coalesce env rs removed created b))) \<and>
   c \<notin> fst ` set (fst (snd (snd (coalesce env rs removed created b))))"
proof (induction rs arbitrary: removed created b)
  case Nil
  then show ?case by simp
next
  case (Cons a rs)
  obtain rp rfi where a: "a = (rp, rfi)" by (cases a)
  let ?p = "pairWith env rp rfi created removed created b"
  let ?c = "coalesce env rs (fst (snd ?p)) (fst (snd (snd ?p))) (fst (snd (snd (snd ?p))))"
  have pc: "snd (snd (snd (snd ?p))) = Completed"
    using Cons.prems(1)
    by (auto simp: a coalesce_Cons simp del: coalesce.simps(2) split: if_splits)
  then have eq: "coalesce env (a # rs) removed created b = sentFirst (fst ?p) ?c"
    by (simp add: a coalesce_Cons del: coalesce.simps(2))
  with Cons.prems(1) have cc: "snd (snd (snd (snd ?c))) = Completed" by simp
  from Cons.prems(2) a have rp: "rp \<notin> fst ` set rs" and d: "distinct (map fst rs)" by auto
  from Cons.prems(4,5) have cm: "(c, fc) \<in> set created"
    by (simp add: map_of_eq_Some_iff)
  show ?case
  proof (cases "rp = r")
    case True
    with Cons.prems(2,3) a have rfi: "rfi = fr"
      by (force simp: image_iff)
    have f: "filter (\<lambda>x. SameFile fr (snd x)) created = [(c, fc)]"
      using Cons.prems(4) cm Cons.prems(6,7) by (intro filter_single) auto
    have ev: "fst ?p =
        [\<lparr>FileInfo = fr, Path = r, Op = (if Dir env r = Dir env c then Rename else Move)\<rparr>]"
      using pairWith_Completed_events [OF pc] f True rfi by simp
    have rest: "filter (\<lambda>e. Path e = r) (fst ?c) = []"
      using rp True by (intro coalesce_no_event) simp
    have "c \<notin> fst ` set (fst (snd (snd ?p)))"
      using pairWith_Completed_created [OF pc cm] Cons.prems(6) rfi by simp
    with coalesce_created_subset [of env rs "fst (snd ?p)" "fst (snd (snd ?p))"
           "fst (snd (snd (snd ?p)))"]
    have c': "c \<notin> fst ` set (fst (snd (snd ?c)))" by (auto simp: image_iff)
    have "fst (snd ?p) = AList.delete r removed"
      using pairWith_Completed_removed [OF pc] cm Cons.prems(6) rfi True by force
    then have "r \<notin> fst ` set (fst (snd ?p))"
      by (simp add: delete_notin_dom)
    with coalesce_removed_subset [of env rs "fst (snd ?p)" "fst (snd (snd ?p))"
           "fst (snd (snd (snd ?p)))"]
    have r': "r \<notin> fst ` set (fst (snd ?c))" by (auto simp: image_iff)
    from ev rest c' r' show ?thesis by (simp add: eq)
  next
    case False
    with Cons.prems(3) a have m: "(r, fr) \<in> set rs" by auto
    from Cons.prems(8) a False have ns: "\<not> SameFile rfi fc" by auto
    have "\<And>e. e \<in> set (fst ?p) \<Longrightarrow> Path e \<noteq> r"
      using pairWith_events_path [of _ env rp rfi created removed created b] False by auto
    then have none: "filter (\<lambda>e. Path e = r) (fst ?p) = []"
      by (auto simp: filter_empty_conv)
    have "map_of (fst (snd (snd ?p))) c = map_of created c \<or>
          (\<exists>cfi. (c, cfi) \<in> set created \<and> SameFile rfi cfi)"
      by (rule pairWith_created_map_of)
    moreover have "\<And>cfi. (c, cfi) \<in> set created \<Longrightarrow> cfi = fc"
      using Cons.prems(4,5) by (simp add: map_of_eq_Some_iff)
    ultimately have m': "map_of (fst (snd (snd ?p))) c = Some fc"
      using ns Cons.prems(5) by auto
    have d': "distinct (map fst (fst (snd (snd ?p))))"
      using Cons.prems(4) by (rule pairWith_created_distinct)
    have u1: "\<forall>x \<in> set (fst (snd (snd ?p))). SameFile fr (snd x) \<longrightarrow> fst x = c"
      using Cons.prems(7) pairWith_created_subset [of env rp rfi created removed created b]
      by blast
    have u2: "\<forall>x \<in> set rs. SameFile (snd x) fc \<longrightarrow> fst x = r"
      using Cons.prems(8) by simp
    from Cons.IH [OF cc d m d' m' Cons.prems(6) u1 u2] none show ?thesis
      by (simp add: eq)
  qed
qed

subsection \<open>pollEvents\<close>

lemma pollEvents_CompletedE:
  assumes "pollEvents env b w cur = (evs, Completed)"
  obtains evs1 created b1 evs2 removed' created' b2 evs3 b3 evs4 b4 where
    "findModified (files w) cur [] b = (evs1, created, b1, Completed)"
    "coalesce env (findRemoved cur (files w) []) (findRemoved cur (files w) []) created b1 =
       (evs2, removed', created', b2, Completed)"
    "sendEach Create created' b2 = (evs3, b3, Completed)"
    "sendEach Remove removed' b3 = (evs4, b4, Completed)"
    "evs = evs1 @ evs2 @ evs3 @ evs4"
  using assms unfolding pollEvents_def Let_def
  by (auto split: prod.splits if_splits)

lemma findRemoved_lookup:
  "distinct (map fst latest) \<Longrightarrow>
   map_of (findRemoved cur latest []) k = (if map_of cur k = None then map_of latest k else None)"
  using map_of_eq_None_iff [of latest k]
  by (cases "k \<in> fst ` set latest") (simp_all add: findRemoved_map_of)

lemma findRemoved_absent:
  "k \<in> fst ` set (findRemoved cur latest []) \<Longrightarrow>
   map_of cur k = None \<and> k \<in> fst ` set latest"
  using findRemoved_keys [of k cur latest "[]"] by auto

lemma findModified_lookup:
  "findModified latest cur [] b = (evs1, created, b1, Completed) \<Longrightarrow> distinct (map fst cur) \<Longrightarrow>
   map_of created k = (if map_of latest k = None then map_of cur k else None)"
  using findModified_map_of [of latest cur "[]" b k] map_of_eq_None_iff [of cur k]
  by (cases "k \<in> fst ` set cur") simp_all

lemma findModified_absent:
  "findModified latest cur [] b = (evs1, created, b1, out) \<Longrightarrow> k \<in> fst ` set created \<Longrightarrow>
   map_of latest k = None \<and> k \<in> fst ` set cur"
  using findModified_keys [of k latest cur "[]" b] by auto

lemma pollEvents_paths:
  assumes "pollEvents env b w cur = (evs, Completed)"
  obtains evs1 created b1 evs2 removed' created' b2 evs3 b3 evs4 b4 where
    "findModified (files w) cur [] b = (evs1, created, b1, Completed)"
    "coalesce env (findRemoved cur (files w) []) (findRemoved cur (files w) []) created b1 =
       (evs2, removed', created', b2, Completed)"
    "sendEach Create created' b2 = (evs3, b3, Completed)"
    "sendEach Remove removed' b3 = (evs4, b4, Completed)"
    "evs = evs1 @ evs2 @ evs3 @ evs4"
    "\<forall>e \<in> set evs1.
       map_of (files w) (Path e) \<noteq> None \<and> map_of cur (Path e) \<noteq> None \<and> Op e = Modify"
    "\<forall>e \<in> set evs2.
       map_of cur (Path e) = None \<and> map_of (files w) (Path e) \<noteq> None \<and>
       (Op e = Rename \<or> Op e = Move)"
    "\<forall>e \<in> set evs3.
       map_of (files w) (Path e) = None \<and> (Path e, FileInfo e) \<in> set created' \<and>
       (Path e, FileInfo e) \<in> set created \<and> Op e = Create"
    "\<forall>e \<in> set evs4.
       map_of cur (Path e) = None \<and> (Path e, FileInfo e) \<in> set removed' \<and>
       (Path e, FileInfo e) \<in> set (findRemoved cur (files w) []) \<and> Op e = Remove"
proof -
  let ?removed = "findRemoved cur (files w) []"
  from assms obtain evs1 created b1 evs2 removed' created' b2 evs3 b3 evs4 b4 where
    m: "findModified (files w) cur [] b = (evs1, created, b1, Completed)" and
    co: "coalesce env ?removed ?removed created b1 = (evs2, removed', created', b2, Completed)" and
    s3: "sendEach Create created' b2 = (evs3, b3, Completed)" and
    s4: "sendEach Remove removed' b3 = (evs4, b4, Completed)" and
    evs: "evs = evs1 @ evs2 @ evs3 @ evs4"
    by (rule pollEvents_CompletedE)
  have k1: "map_of (files w) (Path e) \<noteq> None \<and> map_of cur (Path e) \<noteq> None \<and> Op e = Modify"
    if "e \<in> set evs1" for e
  proof -
    from findModified_events [of e "files w" cur "[]" b] that m
    obtain l' c' where x: "(Path e, Some c') \<in> set cur"
      "map_of (files w) (Path e) = Some (Some l')"
      "e = \<lparr>FileInfo = Some c', Path = Path e, Op = Modify\<rparr>" by auto
    from x(1) have "Path e \<in> fst ` set cur" by (force simp: image_iff)
    then have "map_of cur (Path e) \<noteq> None" by (simp add: map_of_eq_None_iff)
    moreover from x(3) have "Op e = Modify" by (cases e) simp
    ultimately show ?thesis using x(2) by simp
  qed
  have k2: "map_of cur (Path e) = None \<and> map_of (files w) (Path e) \<noteq> None \<and>
            (Op e = Rename \<or> Op e = Move)"
    if "e \<in> set evs2" for e
  proof -
    from coalesce_events [of e env ?removed ?removed created b1] that co
    have "Path e \<in> fst ` set ?removed" and o: "Op e = Rename \<or> Op e = Move" by auto
    from findRemoved_absent [OF this(1)] o show ?thesis
      by (simp add: map_of_eq_None_iff)
  qed
  have k3: "map_of (files w) (Path e) = None \<and> (Path e, FileInfo e) \<in> set created' \<and>
            (Path e, FileInfo e) \<in> set created \<and> Op e = Create"
    if "e \<in> set evs3" for e
  proof -
    from sendEach_events [of e Create created' b2] that s3
    have x: "(Path e, FileInfo e) \<in> set created'" "Op e = Create" by simp_all
    with coalesce_created_subset [of env ?removed ?removed created b1] co
    have y: "(Path e, FileInfo e) \<in> set created" by auto
    then have "Path e \<in> fst ` set created" by (force simp: image_iff)
    from findModified_absent [OF m this] x y show ?thesis by simp
  qed
  have k4: "map_of cur (Path e) = None \<and> (Path e, FileInfo e) \<in> set removed' \<and>
            (Path e, FileInfo e) \<in> set ?removed \<and> Op e = Remove"
    if "e \<in> set evs4" for e
  proof -
    from sendEach_events [of e Remove removed' b3] that s4
    have x: "(Path e, FileInfo e) \<in> set removed'" "Op e = Remove" by simp_all
    with coalesce_removed_subset [of env ?removed ?removed created b1] co
    have y: "(Path e, FileInfo e) \<in> set ?removed" by auto
    then have "Path e \<in> fst ` set ?removed" by (force simp: image_iff)
    from findRemoved_absent [OF this] x y show ?thesis by simp
  qed
  from k1 k2 k3 k4 show ?thesis by (intro that [OF m co s3 s4 evs]) blast+
qed

lemma pollEvents_common_path:
  assumes run: "pollEvents env b w currFileList = (evs, Completed)"
    and dc: "distinct (map fst currFileList)"
    and latest: "map_of (files w) p = Some latestFi"
    and curr: "map_of currFileList p = Some currFi"
  shows "\<exists>l c. latestFi = Some l \<and> currFi = Some c \<and>
           (\<lparr>FileInfo = currFi, Path = p, Op = Modify\<rparr> \<in> set evs \<longleftrightarrow>
              ModTime l \<noteq> ModTime c \<or> Size l \<noteq> Size c) \<and>
           (\<forall>e \<in> set evs. Path e = p \<longrightarrow> e = \<lparr>FileInfo = currFi, Path = p, Op = Modify\<rparr>)"
proof -
  let ?removed = "findRemoved currFileList (files w) []"
  from run obtain evs1 created b1 evs2 removed' created' b2 evs3 b3 evs4 b4 where
    m: "findModified (files w) currFileList [] b = (evs1, created, b1, Completed)" and
    c: "coalesce env ?removed ?removed created b1 = (evs2, removed', created', b2, Completed)" and
    s3: "sendEach Create created' b2 = (evs3, b3, Completed)" and
    s4: "sendEach Remove removed' b3 = (evs4, b4, Completed)" and
    evs: "evs = evs1 @ evs2 @ evs3 @ evs4"
    by (rule pollEvents_CompletedE)
  from curr have mem: "(p, currFi) \<in> set currFileList" by (rule map_of_SomeD)
  from findModified_Completed [of "files w" currFileList "[]" b p currFi latestFi] m mem latest
  obtain l c where
    l: "latestFi = Some l" and cc: "currFi = Some c" and
    send: "ModTime l \<noteq> ModTime c \<or> Size l \<noteq> Size c \<Longrightarrow>
           \<lparr>FileInfo = currFi, Path = p, Op = Modify\<rparr> \<in> set evs1"
    by auto
  have e1: "e = \<lparr>FileInfo = currFi, Path = p, Op = Modify\<rparr> \<and>
            (ModTime l \<noteq> ModTime c \<or> Size l \<noteq> Size c)"
    if "e \<in> set evs1" "Path e = p" for e
  proof -
    from findModified_events [of e "files w" currFileList "[]" b] that m
    obtain l' c' where
      x: "(p, Some c') \<in> set currFileList" "map_of (files w) p = Some (Some l')"
         "ModTime l' \<noteq> ModTime c' \<or> Size l' \<noteq> Size c'"
         "e = \<lparr>FileInfo = Some c', Path = p, Op = Modify\<rparr>"
      by auto
    from x(1) dc curr have "Some c' = currFi" by (simp add: map_of_eq_Some_iff)
    with x latest l cc show ?thesis by auto
  qed
  have e2: "Path e \<noteq> p" if "e \<in> set evs2" for e
  proof -
    from coalesce_events [of e env ?removed ?removed created b1] that c
    have "Path e \<in> fst ` set ?removed" by auto
    from findRemoved_absent [OF this] curr show ?thesis by auto
  qed
  have e3: "Path e \<noteq> p" if "e \<in> set evs3" for e
  proof -
    from sendEach_events [of e Create created' b2] that s3
    have "(Path e, FileInfo e) \<in> set created'" by simp
    with coalesce_created_subset [of env ?removed ?removed created b1] c
    have "Path e \<in> fst ` set created" by (force simp: image_iff)
    from findModified_absent [OF m this] latest show ?thesis by auto
  qed
  have e4: "Path e \<noteq> p" if "e \<in> set evs4" for e
  proof -
    from sendEach_events [of e Remove removed' b3] that s4
    have "(Path e, FileInfo e) \<in> set removed'" by simp
    with coalesce_removed_subset [of env ?removed ?removed created b1] c
    have "Path e \<in> fst ` set ?removed" by (force simp: image_iff)
    from findRemoved_absent [OF this] curr show ?thesis by auto
  qed
  have only: "\<forall>e \<in> set evs. Path e = p \<longrightarrow> e = \<lparr>FileInfo = currFi, Path = p, Op = Modify\<rparr>"
    using e1 e2 e3 e4 by (auto simp: evs)
  have iff: "\<lparr>FileInfo = currFi, Path = p, Op = Modify\<rparr> \<in> set evs \<longleftrightarrow>
             ModTime l \<noteq> ModTime c \<or> Size l \<noteq> Size c"
  proof
    assume a: "\<lparr>FileInfo = currFi, Path = p, Op = Modify\<rparr> \<in> set evs"
    let ?e = "\<lparr>FileInfo = currFi, Path = p, Op = Modify\<rparr>"
    have "Path ?e = p" by simp
    with a e2 [of ?e] e3 [of ?e] e4 [of ?e] have "?e \<in> set evs1"
      unfolding evs by auto
    from e1 [OF this] show "ModTime l \<noteq> ModTime c \<or> Size l \<noteq> Size c" by simp
  next
    assume "ModTime l \<noteq> ModTime c \<or> Size l \<noteq> Size c"
    from send [OF this] show "\<lparr>FileInfo = currFi, Path = p, Op = Modify\<rparr> \<in> set evs"
      by (simp add: evs)
  qed
  from l cc iff only show ?thesis by blast
qed

lemma pollEvents_removed_path:
  assumes run: "pollEvents env b w cur = (evs, Completed)"
    and dl: "distinct (map fst (files w))"
    and p: "map_of (files w) p = Some latestFi" "map_of cur p = None"
  shows "(\<exists>e \<in> set evs. Path e = p) \<and>
         (\<forall>e \<in> set evs. Path e = p \<longrightarrow> Op e = Rename \<or> Op e = Move \<or> Op e = Remove)"
proof -
  let ?removed = "findRemoved cur (files w) []"
  from run obtain evs1 created b1 evs2 removed' created' b2 evs3 b3 evs4 b4 where
    m: "findModified (files w) cur [] b = (evs1, created, b1, Completed)" and
    co: "coalesce env ?removed ?removed created b1 = (evs2, removed', created', b2, Completed)" and
    s3: "sendEach Create created' b2 = (evs3, b3, Completed)" and
    s4: "sendEach Remove removed' b3 = (evs4, b4, Completed)" and
    evs: "evs = evs1 @ evs2 @ evs3 @ evs4" and
    k1: "\<forall>e \<in> set evs1.
       map_of (files w) (Path e) \<noteq> None \<and> map_of cur (Path e) \<noteq> None \<and> Op e = Modify" and
    k2: "\<forall>e \<in> set evs2.
       map_of cur (Path e) = None \<and> map_of (files w) (Path e) \<noteq> None \<and>
       (Op e = Rename \<or> Op e = Move)" and
    k3: "\<forall>e \<in> set evs3.
       map_of (files w) (Path e) = None \<and> (Path e, FileInfo e) \<in> set created' \<and>
       (Path e, FileInfo e) \<in> set created \<and> Op e = Create" and
    k4: "\<forall>e \<in> set evs4.
       map_of cur (Path e) = None \<and> (Path e, FileInfo e) \<in> set removed' \<and>
       (Path e, FileInfo e) \<in> set ?removed \<and> Op e = Remove"
    by (rule pollEvents_paths)
  have only: "\<forall>e \<in> set evs. Path e = p \<longrightarrow> Op e = Rename \<or> Op e = Move \<or> Op e = Remove"
    unfolding evs using k1 k2 k3 k4 p by fastforce
  have rm: "map_of ?removed p = Some latestFi"
    using findRemoved_lookup [OF dl, of cur p] p by simp
  from coalesce_removed_kept [of env ?removed ?removed created b1 p] co
  have "(\<exists>e \<in> set evs2. Path e = p) \<or> map_of removed' p = map_of ?removed p" by simp
  then have "\<exists>e \<in> set evs. Path e = p"
  proof
    assume "\<exists>e \<in> set evs2. Path e = p"
    then show ?thesis by (auto simp: evs)
  next
    assume "map_of removed' p = map_of ?removed p"
    with rm have "(p, latestFi) \<in> set removed'" by (auto dest: map_of_SomeD)
    moreover from sendEach_Completed [of Remove removed' b3] s4
    have "evs4 = map (\<lambda>x. \<lparr>FileInfo = snd x, Path = fst x, Op = Remove\<rparr>) removed'" by simp
    ultimately have "\<lparr>FileInfo = latestFi, Path = p, Op = Remove\<rparr> \<in> set evs4"
      by (force simp: image_iff)
    then show ?thesis by (force simp: evs)
  qed
  with only show ?thesis by blast
qed

lemma pollEvents_created_path:
  assumes run: "pollEvents env b w cur = (evs, Completed)"
    and dl: "distinct (map fst (files w))"
    and dc: "distinct (map fst cur)"
    and p: "map_of cur p = Some currFi" "map_of (files w) p = None"
    and alone: "\<forall>r fr. map_of (files w) r = Some fr \<and> map_of cur r = None \<longrightarrow> \<not> SameFile fr currFi"
  shows "(\<exists>e \<in> set evs. Path e = p) \<and>
         (\<forall>e \<in> set evs. Path e = p \<longrightarrow> Op e = Create \<and> FileInfo e = currFi)"
proof -
  let ?removed = "findRemoved cur (files w) []"
  from run obtain evs1 created b1 evs2 removed' created' b2 evs3 b3 evs4 b4 where
    m: "findModified (files w) cur [] b = (evs1, created, b1, Completed)" and
    co: "coalesce env ?removed ?removed created b1 = (evs2, removed', created', b2, Completed)" and
    s3: "sendEach Create created' b2 = (evs3, b3, Completed)" and
    s4: "sendEach Remove removed' b3 = (evs4, b4, Completed)" and
    evs: "evs = evs1 @ evs2 @ evs3 @ evs4" and
    k1: "\<forall>e \<in> set evs1.
       map_of (files w) (Path e) \<noteq> None \<and> map_of cur (Path e) \<noteq> None \<and> Op e = Modify" and
    k2: "\<forall>e \<in> set evs2.
       map_of cur (Path e) = None \<and> map_of (files w) (Path e) \<noteq> None \<and>
       (Op e = Rename \<or> Op e = Move)" and
    k3: "\<forall>e \<in> set evs3.
       map_of (files w) (Path e) = None \<and> (Path e, FileInfo e) \<in> set created' \<and>
       (Path e, FileInfo e) \<in> set created \<and> Op e = Create" and
    k4: "\<forall>e \<in> set evs4.
       map_of cur (Path e) = None \<and> (Path e, FileInfo e) \<in> set removed' \<and>
       (Path e, FileInfo e) \<in> set ?removed \<and> Op e = Remove"
    by (rule pollEvents_paths)
  have cl: "map_of created k = (if map_of (files w) k = None then map_of cur k else None)" for k
    using m dc by (rule findModified_lookup)
  have dcr: "distinct (map fst created)"
    using findModified_distinct [of "[]" "files w" cur b] m by simp
  have dr: "distinct (map fst ?removed)"
    by (rule findRemoved_distinct) simp
  have cm: "map_of created p = Some currFi" using cl [of p] p by simp
  have e3: "Op e = Create \<and> FileInfo e = currFi" if "e \<in> set evs3" "Path e = p" for e
  proof -
    from k3 [THEN bspec, OF that(1)] that(2) have "(p, FileInfo e) \<in> set created" "Op e = Create" by auto
    with dcr cm show ?thesis by (simp add: map_of_eq_Some_iff)
  qed
  have only: "\<forall>e \<in> set evs. Path e = p \<longrightarrow> Op e = Create \<and> FileInfo e = currFi"
    unfolding evs using k1 k2 e3 k4 p by fastforce
  have nr: "\<forall>x \<in> set ?removed. \<not> SameFile (snd x) currFi"
  proof
    fix x assume x: "x \<in> set ?removed"
    with dr have "map_of ?removed (fst x) = Some (snd x)" by (simp add: map_of_eq_Some_iff)
    with findRemoved_lookup [OF dl, of cur "fst x"] have
      "map_of (files w) (fst x) = Some (snd x)" "map_of cur (fst x) = None"
      by (auto split: if_splits)
    with alone show "\<not> SameFile (snd x) currFi" by blast
  qed
  from coalesce_created_kept [OF dcr cm nr, of env ?removed b1] co
  have "map_of created' p = Some currFi" by simp
  then have "(p, currFi) \<in> set created'" by (rule map_of_SomeD)
  moreover from sendEach_Completed [of Create created' b2] s3
  have "evs3 = map (\<lambda>x. \<lparr>FileInfo = snd x, Path = fst x, Op = Create\<rparr>) created'" by simp
  ultimately have "\<lparr>FileInfo = currFi, Path = p, Op = Create\<rparr> \<in> set evs3"
    by (force simp: image_iff)
  then have "\<exists>e \<in> set evs. Path e = p" by (force simp: evs)
  with only show ?thesis by blast
qed

lemma pollEvents_unknown_path:
  assumes run: "pollEvents env b w cur = (evs, Completed)"
    and p: "map_of cur p = None" "map_of (files w) p = None"
  shows "\<forall>e \<in> set evs. Path e \<noteq> p"
proof -
  let ?removed = "findRemoved cur (files w) []"
  from run obtain evs1 created b1 evs2 removed' created' b2 evs3 b3 evs4 b4 where
    m: "findModified (files w) cur [] b = (evs1, created, b1, Completed)" and
    co: "coalesce env ?removed ?removed created b1 = (evs2, removed', created', b2, Completed)" and
    s3: "sendEach Create created' b2 = (evs3, b3, Completed)" and
    s4: "sendEach Remove removed' b3 = (evs4, b4, Completed)" and
    evs: "evs = evs1 @ evs2 @ evs3 @ evs4" and
    k1: "\<forall>e \<in> set evs1.
       map_of (files w) (Path e) \<noteq> None \<and> map_of cur (Path e) \<noteq> None \<and> Op e = Modify" and
    k2: "\<forall>e \<in> set evs2.
       map_of cur (Path e) = None \<and> map_of (files w) (Path e) \<noteq> None \<and>
       (Op e = Rename \<or> Op e = Move)" and
    k3: "\<forall>e \<in> set evs3.
       map_of (files w) (Path e) = None \<and> (Path e, FileInfo e) \<in> set created' \<and>
       (Path e, FileInfo e) \<in> set created \<and> Op e = Create" and
    k4: "\<forall>e \<in> set evs4.
       map_of cur (Path e) = None \<and> (Path e, FileInfo e) \<in> set removed' \<and>
       (Path e, FileInfo e) \<in> set ?removed \<and> Op e = Remove"
    by (rule pollEvents_paths)
  have c3: "Path e \<noteq> p" if "e \<in> set evs3" for e
  proof -
    from k3 [THEN bspec, OF that] have "Path e \<in> fst ` set created" by (force simp: image_iff)
    from findModified_absent [OF m this] p show ?thesis
      by (auto simp: map_of_eq_None_iff)
  qed
  have c4: "Path e \<noteq> p" if "e \<in> set evs4" for e
  proof -
    from k4 [THEN bspec, OF that] have "Path e \<in> fst ` set ?removed" by (force simp: image_iff)
    from findRemoved_absent [OF this] p show ?thesis
      by (auto simp: map_of_eq_None_iff)
  qed
  show ?thesis unfolding evs using k1 k2 c3 c4 p by fastforce
qed

subsection \<open>replay\<close>

lemma Op_distinct:
  "Create \<noteq> Remove" "Create \<noteq> Modify" "Create \<noteq> Rename" "Create \<noteq> Move"
  "Remove \<noteq> Modify" "Remove \<noteq> Rename" "Remove \<noteq> Move"
  "Modify \<noteq> Rename" "Modify \<noteq> Move" "Rename \<noteq> Move"
  by (simp_all add: Create_def Remove_def Modify_def Rename_def Move_def)

lemma applyEvent_other:
  "Path e \<noteq> p \<Longrightarrow> map_of (applyEvent e s) p = map_of s p"
  by (simp add: applyEvent_def update_conv' delete_conv')

lemma applyEvent_put:
  "Op e = Create \<or> Op e = Modify \<Longrightarrow> map_of (applyEvent e s) (Path e) = Some (FileInfo e)"
  using Op_distinct Op_distinct [symmetric] by (auto simp: applyEvent_def update_conv')

lemma applyEvent_drop:
  "Op e = Rename \<or> Op e = Move \<or> Op e = Remove \<Longrightarrow> map_of (applyEvent e s) (Path e) = None"
  using Op_distinct Op_distinct [symmetric] by (auto simp: applyEvent_def delete_conv')

lemma replay_Cons: "replay (e # evs) s = replay evs (applyEvent e s)"
  by (simp add: replay_def)

lemma replay_other:
  "\<forall>e \<in> set evs. Path e \<noteq> p \<Longrightarrow> map_of (replay evs s) p = map_of s p"
  by (induction evs arbitrary: s) (simp_all add: replay_def applyEvent_other)

lemma replay_put:
  "\<exists>e \<in> set evs. Path e = p \<Longrightarrow>
   \<forall>e \<in> set evs. Path e = p \<longrightarrow> (Op e = Create \<or> Op e = Modify) \<and> FileInfo e = f \<Longrightarrow>
   map_of (replay evs s) p = Some f"
proof (induction evs arbitrary: s)
  case Nil
  then show ?case by simp
next
  case (Cons a evs)
  show ?case
  proof (cases "\<exists>e \<in> set evs. Path e = p")
    case True
    from Cons.IH [OF True] Cons.prems(2) show ?thesis by (simp add: replay_Cons)
  next
    case False
    with Cons.prems(1) have a: "Path a = p" by auto
    with Cons.prems(2) have "(Op a = Create \<or> Op a = Modify) \<and> FileInfo a = f" by simp
    with applyEvent_put [of a s] a have "map_of (applyEvent a s) p = Some f" by auto
    moreover from False have "map_of (replay evs (applyEvent a s)) p = map_of (applyEvent a s) p"
      by (intro replay_other) simp
    ultimately show ?thesis by (simp add: replay_Cons)
  qed
qed

lemma replay_drop:
  "\<exists>e \<in> set evs. Path e = p \<Longrightarrow>
   \<forall>e \<in> set evs. Path e = p \<longrightarrow> Op e = Rename \<or> Op e = Move \<or> Op e = Remove \<Longrightarrow>
   map_of (replay evs s) p = None"
proof (induction evs arbitrary: s)
  case Nil
  then show ?case by simp
next
  case (Cons a evs)
  show ?case
  proof (cases "\<exists>e \<in> set evs. Path e = p")
    case True
    from Cons.IH [OF True] Cons.prems(2) show ?thesis by (simp add: replay_Cons)
  next
    case False
    with Cons.prems(1) have a: "Path a = p" by auto
    with Cons.prems(2) have "Op a = Rename \<or> Op a = Move \<or> Op a = Remove" by simp
    with applyEvent_drop [of a s] a have "map_of (applyEvent a s) p = None" by auto
    moreover from False have "map_of (replay evs (applyEvent a s)) p = map_of (applyEvent a s) p"
      by (intro replay_other) simp
    ultimately show ?thesis by (simp add: replay_Cons)
  qed
qed

section \<open>Results about event.go\<close>

lemma IsDirEvent_nil_receiver: "IsDirEvent None = Inr False"
  by (simp add: IsDirEvent_def)

lemma IsDirEvent_with_metadata:
  "IsDirEvent (Some \<lparr>FileInfo = Some fs, Path = p, Op = op\<rparr>) = Inr (IsDir fs)"
  by (simp add: IsDirEvent_def)

text \<open>
  Claim C7. \<open>IsDirEvent\<close> is to return false, without panicking, when the event's metadata
  is absent. The code returns false for a nil event pointer, but for an event that exists
  and whose \<open>FileInfo\<close> is nil it panics: here on a Create event for the path \<open>d/a\<close> whose
  metadata is nil.
\<close>

theorem C7_IsDirEvent_nil_metadata_panics:
  "IsDirEvent (Some \<lparr>FileInfo = None, Path = ''d/a'', Op = Create\<rparr>) = Inl NilDereference"
  by (simp add: IsDirEvent_def)

section \<open>Results about the lifecycle\<close>

lemma Close_idle:
  "Close NewWatcher =
     \<lparr>Events = Closed, Errors = Closed, closed = Closed, names = [], files = [], wg = 0,
      running = 1\<rparr>"
  by (simp add: Close_def NewWatcher_def CompareAndSwap_def)

text \<open>
  Claim C1. \<open>Close\<close> on a running watcher is to signal the scan loop, wait for it and
  close \<open>Events\<close> and \<open>Errors\<close>. \<open>Close\<close> guards itself with the same
  \<open>CompareAndSwap(0, 1)\<close> as \<open>Start\<close>: after \<open>Start\<close> the value is 1, the swap fails, and
  \<open>Close\<close> returns at once. The watcher is unchanged: no channel is closed and the
  scan loop is still counted in the wait group.
\<close>

theorem C1_Close_after_Start_does_nothing:
  "Start d NewWatcher = (NewWatcher\<lparr>wg := 1, running := 1\<rparr>, None) \<and>
   Close (NewWatcher\<lparr>wg := 1, running := 1\<rparr>) = NewWatcher\<lparr>wg := 1, running := 1\<rparr> \<and>
   Events (Close (fst (Start d NewWatcher))) = Open \<and>
   Errors (Close (fst (Start d NewWatcher))) = Open \<and>
   closed (Close (fst (Start d NewWatcher))) = Open \<and>
   wg (Close (fst (Start d NewWatcher))) = 1"
  by (simp add: Start_def Close_def NewWatcher_def CompareAndSwap_def)

section \<open>Results about listing\<close>

text \<open>Whatever \<open>listForName\<close> returns as an error, \<open>os.IsNotExist\<close> is false of it: the
  cause is only in its text.\<close>

lemma listForName_never_IsNotExist:
  "listForName env name = Inl err \<Longrightarrow> \<not> IsNotExist err"
  by (auto simp: listForName_def Let_def split: sum.splits if_splits)

text \<open>So \<open>listForAll\<close> never calls \<open>doRemove\<close>: whatever the file system does, the
  watcher is the same afterwards.\<close>

lemma listForAllLoop_keeps_watcher:
  "fst (snd (listForAllLoop env ns w fileList b)) = w"
proof (induction ns arbitrary: fileList b)
  case Nil
  then show ?case by simp
next
  case (Cons a ns)
  obtain name u where a: "a = (name, u)" by (cases a)
  show ?case
  proof (cases "listForName env name")
    case (Inl err)
    then have "\<not> IsNotExist err" by (rule listForName_never_IsNotExist)
    with Inl Cons.IH show ?thesis
      by (simp add: a split: option.splits)
  next
    case (Inr fl)
    with Cons.IH show ?thesis by (simp add: a)
  qed
qed

lemma listForAll_keeps_watcher:
  "fst (snd (listForAll env w b)) = w"
  by (simp add: listForAll_def listForAllLoop_keeps_watcher)

text \<open>
  Claim C2. A target whose listing fails because the path no longer exists is to be
  deregistered. The directory \<open>/d\<close> is gone and \<open>os.Stat\<close> fails with a \<open>*PathError\<close> of
  cause ENOENT, of which \<open>os.IsNotExist\<close> is true; \<open>listForName\<close> reports it as a text
  error, of which it is false, so \<open>listForAll\<close> sends the error and leaves the watcher as
  it was: \<open>/d\<close> is still in \<open>names\<close>, and \<open>doRemove\<close> has dropped none of its entries
  from \<open>files\<close>. (The scan loop replaces \<open>w.files\<close> by the new listing when the cycle
  ends; \<open>/d\<close> stays in \<open>names\<close> and is listed again at every tick.)
\<close>

theorem C2_missing_target_stays_registered:
  "Stat goneWorld ''/d'' = Inl (PathError ''stat'' ''/d'' ENOENT) \<and>
   IsNotExist (PathError ''stat'' ''/d'' ENOENT) \<and>
   listForAll goneWorld (watching beforeAll) None =
     ([ErrorString ''name /d with error stat /d: no such file or directory''],
      watching beforeAll, [], None, Completed) \<and>
   names (watching beforeAll) = [(''/d'', ())] \<and>
   files (watching beforeAll) = beforeAll"
  by (simp add: listForAll_def watching_def goneWorld_def listForName_def sentFirst_def
      NewWatcher_def)

text \<open>The listing has a key for every directory entry, and nil under the key of an
  entry whose \<open>Info()\<close> fails.\<close>

lemma listEntries_keys:
  "fst ` set (listEntries env name ds list) =
     fst ` set list \<union> (\<lambda>d. Join env name (Name d)) ` set ds"
  by (induction ds arbitrary: list) (auto simp: Let_def dom_update)

lemma listEntries_failed_child:
  "Info d = Inl err \<Longrightarrow>
   \<forall>d' \<in> set ds. Join env name (Name d') \<noteq> Join env name (Name d) \<Longrightarrow>
   map_of (listEntries env name (d # ds) list) (Join env name (Name d)) = Some None"
proof -
  have keep: "map_of (listEntries env name ds l) k = map_of l k"
    if "\<forall>d' \<in> set ds. Join env name (Name d') \<noteq> k" for l k
    using that by (induction ds arbitrary: l) (auto simp: Let_def update_conv')
  assume "Info d = Inl err"
    and "\<forall>d' \<in> set ds. Join env name (Name d') \<noteq> Join env name (Name d)"
  then show ?thesis
    by (simp add: Let_def keep update_conv')
qed

text \<open>
  Claim C8. A child whose \<open>Info()\<close> fails is to have no entry in the listing. The listing
  of \<open>/d\<close> goes on to \<open>/d/b\<close> as the claim says, but \<open>/d/a\<close> has an entry, with nil
  metadata.
\<close>

theorem C8_failed_child_stored_as_nil:
  "listForName racyWorld ''/d'' =
     Inr [(''/d'', Some (directory 100 2)), (''/d/a'', None), (''/d/b'', Some (regular 50 5 8))] \<and>
   map_of [(''/d'', Some (directory 100 2)), (''/d/a'', None), (''/d/b'', Some (regular 50 5 8))]
     ''/d/a'' = Some None"
  by (simp add: listForName_def racyWorld_def joinPath_def directory_def)

text \<open>When the \<open>Info()\<close> of \<open>/d/a\<close> fails in two listings in a row, the nil entry is in
  both snapshots and the cycle panics before it sends anything.\<close>

lemma nil_entry_in_both_panics:
  "pollEvents racyWorld None
     (watching [(''/d'', Some (directory 100 2)), (''/d/a'', None), (''/d/b'', Some (regular 50 5 8))])
     [(''/d'', Some (directory 100 2)), (''/d/a'', None), (''/d/b'', Some (regular 50 5 8))] =
     ([], Panicked)"
  by (simp add: pollEvents_def watching_def NewWatcher_def regular_def directory_def)

section \<open>Results about the diff\<close>

text \<open>Of the world, \<open>pollEvents\<close> uses \<open>filepath.Dir\<close> only; the examples take it from
  \<open>goneWorld\<close>.\<close>

lemma pollEvents_afterAll:
  "pollEvents goneWorld None (watching beforeAll) afterAll = (eventsAll, Completed)"
  by (simp add: pollEvents_def watching_def NewWatcher_def beforeAll_def afterAll_def goneWorld_def
      sentFirst_def SameFile_def regular_def directory_def dirOfPath_def eventsAll_def)

text \<open>
  Claim C3. A removed path that has been paired is to take part in no further pairing, so
  that it yields at most one coalesced event. After \<open>mv /d/a /d/b; ln /d/b /d/c\<close> the
  removed path \<open>/d/a\<close> is paired with \<open>/d/b\<close> and then, the inner loop going on, with
  \<open>/d/c\<close>: two Rename events at \<open>/d/a\<close>.
\<close>

theorem C3_removed_path_paired_twice:
  "pollEvents goneWorld None (watching beforeLink) afterLink =
     ([\<lparr>FileInfo = Some (directory 101 2), Path = ''/d'', Op = Modify\<rparr>,
       \<lparr>FileInfo = Some (regular 50 5 7), Path = ''/d/a'', Op = Rename\<rparr>,
       \<lparr>FileInfo = Some (regular 50 5 7), Path = ''/d/a'', Op = Rename\<rparr>], Completed)"
  by (simp add: pollEvents_def watching_def NewWatcher_def beforeLink_def afterLink_def
      goneWorld_def sentFirst_def SameFile_def regular_def directory_def dirOfPath_def)

text \<open>
  Claim C4, as the code has it. Take a removed path \<open>r\<close> and a created path \<open>c\<close> whose
  metadata denote the same file, such that \<open>r\<close> is the same file as no other created path
  and \<open>c\<close> as no other removed path. In a cycle that runs to its end there is exactly one
  event at \<open>r\<close>: it carries the metadata \<open>r\<close> had and is a Rename if \<open>r\<close> and \<open>c\<close> have the
  same parent directory, a Move otherwise. There is no event at \<open>c\<close>; so neither path is
  reported by a Create or a Remove event.
\<close>

theorem C4_pair_coalesced:
  assumes run: "pollEvents env b w currFileList = (evs, Completed)"
    and dl: "distinct (map fst (files w))"
    and dc: "distinct (map fst currFileList)"
    and r: "map_of (files w) r = Some fr" "map_of currFileList r = None"
    and c: "map_of currFileList c = Some fc" "map_of (files w) c = None"
    and same: "SameFile fr fc"
    and only_c: "\<forall>c' fc'. map_of currFileList c' = Some fc' \<and> map_of (files w) c' = None \<and>
                   SameFile fr fc' \<longrightarrow> c' = c"
    and only_r: "\<forall>r' fr'. map_of (files w) r' = Some fr' \<and> map_of currFileList r' = None \<and>
                   SameFile fr' fc \<longrightarrow> r' = r"
  shows "filter (\<lambda>e. Path e = r) evs =
           [\<lparr>FileInfo = fr, Path = r,
             Op = (if Dir env r = Dir env c then Rename else Move)\<rparr>] \<and>
         filter (\<lambda>e. Path e = c) evs = []"
proof -
  let ?removed = "findRemoved currFileList (files w) []"
  from run obtain evs1 created b1 evs2 removed' created' b2 evs3 b3 evs4 b4 where
    m: "findModified (files w) currFileList [] b = (evs1, created, b1, Completed)" and
    co: "coalesce env ?removed ?removed created b1 = (evs2, removed', created', b2, Completed)" and
    s3: "sendEach Create created' b2 = (evs3, b3, Completed)" and
    s4: "sendEach Remove removed' b3 = (evs4, b4, Completed)" and
    evs: "evs = evs1 @ evs2 @ evs3 @ evs4"
    by (rule pollEvents_CompletedE)
  have rl: "map_of ?removed k = (if map_of currFileList k = None then map_of (files w) k else None)"
    for k using dl by (rule findRemoved_lookup)
  have cl: "map_of created k = (if map_of (files w) k = None then map_of currFileList k else None)"
    for k using m dc by (rule findModified_lookup)
  have dr: "distinct (map fst ?removed)"
    by (rule findRemoved_distinct) simp
  have dcr: "distinct (map fst created)"
    using findModified_distinct [of "[]" "files w" currFileList b] m by simp
  have rmem: "(r, fr) \<in> set ?removed"
    using rl [of r] r by (auto dest: map_of_SomeD)
  have cmap: "map_of created c = Some fc"
    using cl [of c] c by simp
  have u1: "\<forall>x \<in> set created. SameFile fr (snd x) \<longrightarrow> fst x = c"
  proof (intro ballI impI)
    fix x assume x: "x \<in> set created" and s: "SameFile fr (snd x)"
    from x dcr have "map_of created (fst x) = Some (snd x)"
      by (simp add: map_of_eq_Some_iff)
    with cl [of "fst x"] have
      "map_of currFileList (fst x) = Some (snd x)" "map_of (files w) (fst x) = None"
      by (auto split: if_splits)
    with only_c s show "fst x = c" by blast
  qed
  have u2: "\<forall>x \<in> set ?removed. SameFile (snd x) fc \<longrightarrow> fst x = r"
  proof (intro ballI impI)
    fix x assume x: "x \<in> set ?removed" and s: "SameFile (snd x) fc"
    from x dr have "map_of ?removed (fst x) = Some (snd x)"
      by (simp add: map_of_eq_Some_iff)
    with rl [of "fst x"] have
      "map_of (files w) (fst x) = Some (snd x)" "map_of currFileList (fst x) = None"
      by (auto split: if_splits)
    with only_r s show "fst x = r" by blast
  qed
  from coalesce_pair [of env ?removed ?removed created b1 r fr c fc] co dr rmem dcr cmap same u1 u2
  have p2: "filter (\<lambda>e. Path e = r) evs2 =
      [\<lparr>FileInfo = fr, Path = r, Op = (if Dir env r = Dir env c then Rename else Move)\<rparr>]"
    and r': "r \<notin> fst ` set removed'" and c': "c \<notin> fst ` set created'"
    by simp_all
  have k1: "map_of (files w) (Path e) \<noteq> None \<and> map_of currFileList (Path e) \<noteq> None"
    if "e \<in> set evs1" for e
  proof -
    from findModified_events [of e "files w" currFileList "[]" b] that m
    obtain l' c' where "(Path e, Some c') \<in> set currFileList"
      "map_of (files w) (Path e) = Some (Some l')" by auto
    with dc show ?thesis by (simp add: map_of_eq_Some_iff)
  qed
  have k2: "map_of currFileList (Path e) = None \<and> map_of (files w) (Path e) \<noteq> None"
    if "e \<in> set evs2" for e
  proof -
    from coalesce_events [of e env ?removed ?removed created b1] that co
    have "Path e \<in> fst ` set ?removed" by auto
    from findRemoved_absent [OF this] show ?thesis
      by (simp add: map_of_eq_None_iff)
  qed
  have k3: "Path e \<in> fst ` set created'" if "e \<in> set evs3" for e
    using sendEach_events [of e Create created' b2] that s3 by (force simp: image_iff)
  have k4: "Path e \<in> fst ` set removed'" if "e \<in> set evs4" for e
    using sendEach_events [of e Remove removed' b3] that s4 by (force simp: image_iff)
  have sub3: "fst ` set created' \<subseteq> fst ` set created"
    using coalesce_created_subset [of env ?removed ?removed created b1] co by auto
  have sub4: "fst ` set removed' \<subseteq> fst ` set ?removed"
    using coalesce_removed_subset [of env ?removed ?removed created b1] co by auto
  have a3: "map_of (files w) (Path e) = None" if "e \<in> set evs3" for e
    using k3 [OF that] sub3 findModified_absent [OF m] by blast
  have a4: "map_of currFileList (Path e) = None" if "e \<in> set evs4" for e
    using k4 [OF that] sub4 findRemoved_absent by blast
  have r1: "filter (\<lambda>e. Path e = r) evs1 = []"
    using k1 r by (fastforce simp: filter_empty_conv)
  have r3: "filter (\<lambda>e. Path e = r) evs3 = []"
    using a3 r by (fastforce simp: filter_empty_conv)
  have r4: "filter (\<lambda>e. Path e = r) evs4 = []"
    using k4 r' by (fastforce simp: filter_empty_conv)
  have c1: "filter (\<lambda>e. Path e = c) evs1 = []"
    using k1 c by (fastforce simp: filter_empty_conv)
  have c2: "filter (\<lambda>e. Path e = c) evs2 = []"
    using k2 c by (fastforce simp: filter_empty_conv)
  have c3: "filter (\<lambda>e. Path e = c) evs3 = []"
    using k3 c' by (fastforce simp: filter_empty_conv)
  have c4: "filter (\<lambda>e. Path e = c) evs4 = []"
    using a4 c by (fastforce simp: filter_empty_conv)
  from p2 r1 r3 r4 c1 c2 c3 c4 show ?thesis
    by (simp add: evs)
qed

theorem C4_pair_coalesced_witness:
  "pollEvents goneWorld None (watching beforeAll) afterAll = (eventsAll, Completed) \<and>
   map_of (files (watching beforeAll)) ''/d/a'' = Some (Some (regular 50 5 7)) \<and>
   map_of afterAll ''/d/a'' = None \<and>
   map_of afterAll ''/d/b'' = Some (Some (regular 50 5 7)) \<and>
   map_of (files (watching beforeAll)) ''/d/b'' = None \<and>
   SameFile (Some (regular 50 5 7)) (Some (regular 50 5 7)) \<and>
   filter (\<lambda>e. Path e = ''/d/a'') eventsAll =
     [\<lparr>FileInfo = Some (regular 50 5 7), Path = ''/d/a'',
       Op = (if Dir goneWorld ''/d/a'' = Dir goneWorld ''/d/b'' then Rename else Move)\<rparr>] \<and>
   filter (\<lambda>e. Path e = ''/d/b'') eventsAll = []"
proof -
  note run = pollEvents_afterAll
  have dl: "distinct (map fst (files (watching beforeAll)))"
    by (simp add: watching_def beforeAll_def NewWatcher_def)
  have dc: "distinct (map fst afterAll)" by (simp add: afterAll_def)
  have r: "map_of (files (watching beforeAll)) ''/d/a'' = Some (Some (regular 50 5 7))"
    "map_of afterAll ''/d/a'' = None"
    by (simp_all add: watching_def beforeAll_def afterAll_def NewWatcher_def)
  have c: "map_of afterAll ''/d/b'' = Some (Some (regular 50 5 7))"
    "map_of (files (watching beforeAll)) ''/d/b'' = None"
    by (simp_all add: watching_def beforeAll_def afterAll_def NewWatcher_def)
  have same: "SameFile (Some (regular 50 5 7)) (Some (regular 50 5 7))"
    by (simp add: SameFile_def)
  have only_c: "\<forall>c' fc'. map_of afterAll c' = Some fc' \<and>
      map_of (files (watching beforeAll)) c' = None \<and>
      SameFile (Some (regular 50 5 7)) fc' \<longrightarrow> c' = ''/d/b''"
    by (auto simp: afterAll_def SameFile_def regular_def directory_def split: if_splits)
  have only_r: "\<forall>r' fr'. map_of (files (watching beforeAll)) r' = Some fr' \<and>
      map_of afterAll r' = None \<and>
      SameFile fr' (Some (regular 50 5 7)) \<longrightarrow> r' = ''/d/a''"
    by (auto simp: watching_def NewWatcher_def beforeAll_def SameFile_def regular_def
        directory_def split: if_splits)
  from C4_pair_coalesced [OF run dl dc r c same only_c only_r] run r c same
  show ?thesis by simp
qed

text \<open>
  Without the condition the claim fails, by the first-match pairing: \<open>/d/a\<close> and \<open>/d/a2\<close>
  are two links to one file, \<open>/d/a\<close> is renamed to \<open>/d/b\<close> and \<open>/d/a2\<close> is deleted. The
  removed path \<open>/d/a2\<close> and the created path \<open>/d/b\<close> are the same file, but \<open>/d/b\<close> has
  been paired with \<open>/d/a\<close>, and \<open>/d/a2\<close> is reported by a plain Remove event. (Were
  \<open>/d/a2\<close> visited first, the two removed paths would change places.)
\<close>

theorem C4_second_link_counterexample:
  "map_of (files (watching beforeTwo)) ''/d/a2'' = Some (Some (regular 50 5 7)) \<and>
   map_of afterTwo ''/d/a2'' = None \<and>
   map_of afterTwo ''/d/b'' = Some (Some (regular 50 5 7)) \<and>
   map_of (files (watching beforeTwo)) ''/d/b'' = None \<and>
   SameFile (Some (regular 50 5 7)) (Some (regular 50 5 7)) \<and>
   pollEvents goneWorld None (watching beforeTwo) afterTwo =
     ([\<lparr>FileInfo = Some (directory 101 2), Path = ''/d'', Op = Modify\<rparr>,
       \<lparr>FileInfo = Some (regular 50 5 7), Path = ''/d/a'', Op = Rename\<rparr>,
       \<lparr>FileInfo = Some (regular 50 5 7), Path = ''/d/a2'', Op = Remove\<rparr>], Completed)"
  by (simp add: pollEvents_def watching_def NewWatcher_def beforeTwo_def afterTwo_def
      goneWorld_def sentFirst_def SameFile_def regular_def directory_def dirOfPath_def)

text \<open>
  Claim C5, as the code has it. In a cycle that runs to its end, replay the events onto
  the previous snapshot. If every path that both snapshots hold with the same modification
  time and size has the same metadata in both, the result agrees with the current snapshot
  at every path, except at a created path that is the same file as a removed path.
\<close>

theorem C5_replay_agrees:
  assumes run: "pollEvents env b w currFileList = (evs, Completed)"
    and dl: "distinct (map fst (files w))"
    and dc: "distinct (map fst currFileList)"
    and quiet: "\<forall>q l c. map_of (files w) q = Some (Some l) \<and> map_of currFileList q = Some (Some c) \<and>
                  ModTime l = ModTime c \<and> Size l = Size c \<longrightarrow> l = c"
    and p: "\<not> (\<exists>fc r fr. map_of currFileList p = Some fc \<and> map_of (files w) p = None \<and>
                 map_of (files w) r = Some fr \<and> map_of currFileList r = None \<and> SameFile fr fc)"
  shows "map_of (replay evs (files w)) p = map_of currFileList p"
proof (cases "map_of (files w) p")
  case None
  note old = None
  show ?thesis
  proof (cases "map_of currFileList p")
    case None
    from pollEvents_unknown_path [OF run None old]
    have "map_of (replay evs (files w)) p = map_of (files w) p" by (rule replay_other)
    with old None show ?thesis by simp
  next
    case (Some currFi)
    from p Some old have
      "\<forall>r fr. map_of (files w) r = Some fr \<and> map_of currFileList r = None \<longrightarrow> \<not> SameFile fr currFi"
      by blast
    from pollEvents_created_path [OF run dl dc Some old this]
    have "map_of (replay evs (files w)) p = Some currFi"
      by (intro replay_put) auto
    with Some show ?thesis by simp
  qed
next
  case (Some latestFi)
  note old = Some
  show ?thesis
  proof (cases "map_of currFileList p")
    case None
    from pollEvents_removed_path [OF run dl old None]
    have "map_of (replay evs (files w)) p = None"
      by (intro replay_drop) auto
    with None show ?thesis by simp
  next
    case (Some currFi)
    from pollEvents_common_path [OF run dc old Some] obtain l c where
      l: "latestFi = Some l" and c: "currFi = Some c" and
      iff: "\<lparr>FileInfo = currFi, Path = p, Op = Modify\<rparr> \<in> set evs \<longleftrightarrow>
              ModTime l \<noteq> ModTime c \<or> Size l \<noteq> Size c" and
      only: "\<forall>e \<in> set evs. Path e = p \<longrightarrow> e = \<lparr>FileInfo = currFi, Path = p, Op = Modify\<rparr>"
      by blast
    show ?thesis
    proof (cases "ModTime l \<noteq> ModTime c \<or> Size l \<noteq> Size c")
      case True
      with iff have "\<exists>e \<in> set evs. Path e = p" by force
      moreover have
        "\<forall>e \<in> set evs. Path e = p \<longrightarrow> (Op e = Create \<or> Op e = Modify) \<and> FileInfo e = currFi"
      proof (intro ballI impI)
        fix e assume "e \<in> set evs" "Path e = p"
        with only have "e = \<lparr>FileInfo = currFi, Path = p, Op = Modify\<rparr>" by blast
        then show "(Op e = Create \<or> Op e = Modify) \<and> FileInfo e = currFi" by simp
      qed
      ultimately have "map_of (replay evs (files w)) p = Some currFi" by (rule replay_put)
      with Some show ?thesis by simp
    next
      case False
      with iff have no: "\<lparr>FileInfo = currFi, Path = p, Op = Modify\<rparr> \<notin> set evs" by simp
      have "\<forall>e \<in> set evs. Path e \<noteq> p"
      proof
        fix e assume e: "e \<in> set evs"
        show "Path e \<noteq> p"
        proof
          assume "Path e = p"
          with only e have "e = \<lparr>FileInfo = currFi, Path = p, Op = Modify\<rparr>" by blast
          with e no show False by simp
        qed
      qed
      then have "map_of (replay evs (files w)) p = map_of (files w) p" by (rule replay_other)
      moreover from quiet old Some l c False have "l = c" by blast
      ultimately show ?thesis using old Some l c by simp
    qed
  qed
qed

theorem C5_replay_agrees_witness:
  "pollEvents goneWorld None (watching beforeAll) afterAll = (eventsAll, Completed) \<and>
   map_of (replay eventsAll (files (watching beforeAll))) ''/d'' = map_of afterAll ''/d'' \<and>
   map_of (replay eventsAll (files (watching beforeAll))) ''/d/a'' = map_of afterAll ''/d/a'' \<and>
   map_of (replay eventsAll (files (watching beforeAll))) ''/d/m'' = map_of afterAll ''/d/m'' \<and>
   map_of (replay eventsAll (files (watching beforeAll))) ''/d/n'' = map_of afterAll ''/d/n'' \<and>
   map_of (replay eventsAll (files (watching beforeAll))) ''/d/x'' = map_of afterAll ''/d/x'' \<and>
   map_of afterAll ''/d/n'' = Some (Some (regular 80 5 10))"
proof -
  note run = pollEvents_afterAll
  have dl: "distinct (map fst (files (watching beforeAll)))"
    by (simp add: watching_def beforeAll_def NewWatcher_def)
  have dc: "distinct (map fst afterAll)" by (simp add: afterAll_def)
  have quiet: "\<forall>q l c. map_of (files (watching beforeAll)) q = Some (Some l) \<and>
      map_of afterAll q = Some (Some c) \<and> ModTime l = ModTime c \<and> Size l = Size c \<longrightarrow> l = c"
    by (auto simp: watching_def NewWatcher_def beforeAll_def afterAll_def regular_def
        directory_def split: if_splits)
  have p: "\<not> (\<exists>fc r fr. map_of afterAll p = Some fc \<and>
      map_of (files (watching beforeAll)) p = None \<and>
      map_of (files (watching beforeAll)) r = Some fr \<and> map_of afterAll r = None \<and>
      SameFile fr fc)"
    if "p \<noteq> ''/d/b''" for p
    using that
    by (auto simp: watching_def NewWatcher_def beforeAll_def afterAll_def regular_def
        directory_def SameFile_def split: if_splits)
  have n: "map_of afterAll ''/d/n'' = Some (Some (regular 80 5 10))"
    by (simp add: afterAll_def)
  from C5_replay_agrees [OF run dl dc quiet p, of "''/d''"]
    C5_replay_agrees [OF run dl dc quiet p, of "''/d/a''"]
    C5_replay_agrees [OF run dl dc quiet p, of "''/d/m''"]
    C5_replay_agrees [OF run dl dc quiet p, of "''/d/n''"]
    C5_replay_agrees [OF run dl dc quiet p, of "''/d/x''"] run n
  show ?thesis by simp
qed

text \<open>
  The two exceptions are real. After the rename of \<open>/d/a\<close> to \<open>/d/b\<close> the only event about
  the file is the Rename at \<open>/d/a\<close>, which does not name \<open>/d/b\<close>: the replay has no entry
  for \<open>/d/b\<close>. And when \<open>/d/a\<close> is replaced by another file of the same size and
  modification time, the cycle sends no event, so the replay still has the old file.
\<close>

theorem C5_replay_counterexample:
  "pollEvents goneWorld None (watching beforeAll) afterAll = (eventsAll, Completed) \<and>
   map_of (replay eventsAll (files (watching beforeAll))) ''/d/b'' = None \<and>
   map_of afterAll ''/d/b'' = Some (Some (regular 50 5 7)) \<and>
   pollEvents goneWorld None (watching beforeSwap) afterSwap = ([], Completed) \<and>
   map_of (replay [] (files (watching beforeSwap))) ''/d/a'' = Some (Some (regular 50 5 7)) \<and>
   map_of afterSwap ''/d/a'' = Some (Some (regular 50 5 11))"
proof -
  have "map_of (replay eventsAll (files (watching beforeAll))) ''/d/b'' = None"
    by (simp add: replay_def applyEvent_def eventsAll_def watching_def NewWatcher_def
        beforeAll_def Op_distinct Op_distinct [symmetric])
  moreover have "pollEvents goneWorld None (watching beforeSwap) afterSwap = ([], Completed)"
    by (simp add: pollEvents_def watching_def NewWatcher_def beforeSwap_def afterSwap_def
        goneWorld_def sentFirst_def SameFile_def regular_def directory_def dirOfPath_def)
  moreover have "map_of (replay [] (files (watching beforeSwap))) ''/d/a'' = Some (Some (regular 50 5 7))"
    by (simp add: replay_def watching_def NewWatcher_def beforeSwap_def)
  moreover have "map_of afterAll ''/d/b'' = Some (Some (regular 50 5 7))"
    by (simp add: afterAll_def)
  moreover have "map_of afterSwap ''/d/a'' = Some (Some (regular 50 5 11))"
    by (simp add: afterSwap_def)
  ultimately show ?thesis
    using pollEvents_afterAll by simp
qed




lemma single_flag:
  "op \<in> {Create, Remove, Modify, Rename, Move} \<Longrightarrow>
   op AND Chmod = 0 \<and> length (setFlags op) = 1"
  by (auto simp: setFlags_def Create_def Remove_def Modify_def Rename_def Chmod_def Move_def)

text \<open>
  Claim C9. Every event \<open>pollEvents\<close> sends, however the cycle ends, has as \<open>Op\<close> one of
  Create, Remove, Modify, Rename and Move; the Chmod flag is not set, and exactly one of
  the six flags is.
\<close>

theorem C9_one_flag:
  "\<forall>e \<in> set (fst (pollEvents env b w currFileList)).
     Op e \<in> {Create, Remove, Modify, Rename, Move} \<and>
     Op e AND Chmod = 0 \<and> length (setFlags (Op e)) = 1"
proof
  fix e
  assume e: "e \<in> set (fst (pollEvents env b w currFileList))"
  from pollEvents_phases [of env b w currFileList] e
  have "Op e \<in> {Create, Remove, Modify, Rename, Move}"
    by auto
  then show "Op e \<in> {Create, Remove, Modify, Rename, Move} \<and>
     Op e AND Chmod = 0 \<and> length (setFlags (Op e)) = 1"
    using single_flag [of "Op e"] by blast
qed

theorem C9_one_flag_witness:
  "\<lparr>FileInfo = Some (regular 50 5 7), Path = ''/d/a'', Op = Rename\<rparr> \<in>
     set (fst (pollEvents goneWorld None (watching beforeAll) afterAll)) \<and>
   Op \<lparr>FileInfo = Some (regular 50 5 7), Path = ''/d/a'', Op = Rename\<rparr> \<in>
     {Create, Remove, Modify, Rename, Move} \<and>
   Op \<lparr>FileInfo = Some (regular 50 5 7), Path = ''/d/a'', Op = Rename\<rparr> AND Chmod = 0 \<and>
   length (setFlags (Op \<lparr>FileInfo = Some (regular 50 5 7), Path = ''/d/a'', Op = Rename\<rparr>)) = 1"
proof -
  have m: "\<lparr>FileInfo = Some (regular 50 5 7), Path = ''/d/a'', Op = Rename\<rparr> \<in>
     set (fst (pollEvents goneWorld None (watching beforeAll) afterAll))"
    by (simp add: pollEvents_afterAll eventsAll_def)
  from C9_one_flag [of goneWorld None "watching beforeAll" afterAll, THEN bspec, OF m] m
  show ?thesis by blast
qed

text \<open>
  Claim C10. The events of a cycle, however it ends, are the Modify events, then the
  Rename and Move events, then the Create events, then the Remove events.
\<close>

theorem C10_phase_order:
  "\<exists>ms mv cs rs.
     fst (pollEvents env b w currFileList) = ms @ mv @ cs @ rs \<and>
     (\<forall>e \<in> set ms. Op e = Modify) \<and>
     (\<forall>e \<in> set mv. Op e = Rename \<or> Op e = Move) \<and>
     (\<forall>e \<in> set cs. Op e = Create) \<and>
     (\<forall>e \<in> set rs. Op e = Remove)"
  by (rule pollEvents_phases)

theorem C10_phase_order_witness:
  "fst (pollEvents goneWorld None (watching beforeAll) afterAll) = eventsAll \<and>
   (\<exists>ms mv cs rs.
     eventsAll = ms @ mv @ cs @ rs \<and>
     (\<forall>e \<in> set ms. Op e = Modify) \<and>
     (\<forall>e \<in> set mv. Op e = Rename \<or> Op e = Move) \<and>
     (\<forall>e \<in> set cs. Op e = Create) \<and>
     (\<forall>e \<in> set rs. Op e = Remove))"
  using C10_phase_order [of goneWorld None "watching beforeAll" afterAll]
  by (simp add: pollEvents_afterAll)

end
